theory Spec2Isabelle
  imports Main "HOL-Library.AList"
begin

section \<open>Strings of the runtime\<close>

text \<open>
  A text is a \<^typ>\<open>string\<close>: the list of the bytes of its UTF-8 encoding. The patterns
  the program searches for are ASCII, so a match on the bytes is a match on the text.
\<close>

definition startsWith :: "string \<Rightarrow> string \<Rightarrow> bool" where
  "startsWith pat s = (take (length pat) s = pat)"

definition endsWith :: "string \<Rightarrow> string \<Rightarrow> bool" where
  "endsWith pat s = (length pat \<le> length s \<and> drop (length s - length pat) s = pat)"

text \<open>\<^verbatim>\<open>s.includes(pat)\<close>: the pattern starts at some position of the text.\<close>

fun includes_str :: "string \<Rightarrow> string \<Rightarrow> bool" where
  "includes_str pat [] = (pat = [])"
| "includes_str pat (c # cs) = (startsWith pat (c # cs) \<or> includes_str pat cs)"

section \<open>The retry policy: \<^verbatim>\<open>safeGenerateContent\<close> (services/geminiService.ts)\<close>

text \<open>
  A thrown value is read through the three properties the wrapper looks at. A property
  that is absent, or a status or code that is not a number, is \<open>None\<close>.
\<close>

record jserror =
  status :: "int option"
  code :: "int option"
  message :: "string option"

definition Error :: "string \<Rightarrow> jserror" where
  "Error msg = \<lparr>status = None, code = None, message = Some msg\<rparr>"

text \<open>The upstream's answer; its \<^verbatim>\<open>text\<close> may be undefined.\<close>

record response =
  response_text :: "string option"

text \<open>
  The classification in the \<^verbatim>\<open>catch\<close> block:
  \<^verbatim>\<open>error?.status === 429 || error?.code === 429 || (error?.message && (...includes...))\<close>.
\<close>

definition isQuotaError :: "jserror \<Rightarrow> bool" where
  "isQuotaError e =
     (status e = Some 429 \<or> code e = Some 429 \<or>
      (case message e of
         None \<Rightarrow> False
       | Some m \<Rightarrow> m \<noteq> [] \<and>
           (includes_str ''429'' m \<or> includes_str ''quota'' m \<or>
            includes_str ''RESOURCE_EXHAUSTED'' m)))"

text \<open>
  \<^verbatim>\<open>getAI\<close>: the client is built once, from the API key of the environment; with no
  client yet and no key (undefined or empty) it throws.
\<close>

record env =
  genAI :: bool
  API_KEY :: "string option"

definition getAI :: "env \<Rightarrow> jserror + env" where
  "getAI ev =
     (if \<not> genAI ev then
        (if API_KEY ev = None \<or> API_KEY ev = Some [] then
           Inl (Error ''API_KEY is not set in environment variables.'')
         else Inr (ev\<lparr>genAI := True\<rparr>))
      else Inr ev)"

text \<open>
  What one wrapped call did: its outcome (the value returned or the value thrown), the
  number of times the upstream was called, and the pauses it slept, in milliseconds, in
  order.
\<close>

record wrapped =
  outcome :: "jserror + response"
  attempts :: nat
  sleeps :: "nat list"

definition maxRetries :: nat where
  "maxRetries = 3"

text \<open>
  The \<^verbatim>\<open>for\<close> loop. \<open>call i\<close> is what the upstream does at the attempt with index
  \<open>i\<close> (from 0): it returns a response or throws.
\<close>

function retryLoop :: "(nat \<Rightarrow> jserror + response) \<Rightarrow> nat \<Rightarrow> nat \<Rightarrow> nat list \<Rightarrow> wrapped" where
  "retryLoop call i delay slept =
     (if i < maxRetries + 1 then
        (case call i of
           Inr r \<Rightarrow> \<lparr>outcome = Inr r, attempts = i + 1, sleeps = slept\<rparr>
         | Inl e \<Rightarrow>
             if isQuotaError e \<and> i < maxRetries then
               retryLoop call (i + 1) (delay * 2) (slept @ [delay])
             else \<lparr>outcome = Inl e, attempts = i + 1, sleeps = slept\<rparr>)
      else \<lparr>outcome = Inl (Error ''API call failed after max retries''),
             attempts = i, sleeps = slept\<rparr>)"
  by pat_completeness auto
termination
  by (relation "measure (\<lambda>(call, i, delay, slept). maxRetries + 1 - i)") auto

declare retryLoop.simps [simp del]

definition safeGenerateContent :: "env \<Rightarrow> (nat \<Rightarrow> jserror + response) \<Rightarrow> wrapped" where
  "safeGenerateContent ev call =
     (case getAI ev of
        Inl e \<Rightarrow> \<lparr>outcome = Inl e, attempts = 0, sleeps = []\<rparr>
      | Inr ai \<Rightarrow> retryLoop call 0 2000 [])"


section \<open>The response sanitizer: \<^verbatim>\<open>cleanJsonString\<close> (services/geminiService.ts)\<close>

text \<open>
  \<^verbatim>\<open>String.prototype.trim\<close> removes the WhiteSpace and LineTerminator code points
  from both ends: TAB, LF, VT, FF, CR, SPACE, U+00A0, U+1680, U+2000 to U+200A, U+2028,
  U+2029, U+202F, U+205F, U+3000 and U+FEFF, listed here by their UTF-8 encodings.
\<close>

definition WhiteSpace :: "string list" where
  "WhiteSpace =
     [ [CHR 0x09], [CHR 0x0A], [CHR 0x0B], [CHR 0x0C], [CHR 0x0D], [CHR 0x20],
      [CHR 0xC2, CHR 0xA0], [CHR 0xE1, CHR 0x9A, CHR 0x80],
      [CHR 0xE2, CHR 0x80, CHR 0x80], [CHR 0xE2, CHR 0x80, CHR 0x81],
      [CHR 0xE2, CHR 0x80, CHR 0x82], [CHR 0xE2, CHR 0x80, CHR 0x83],
      [CHR 0xE2, CHR 0x80, CHR 0x84], [CHR 0xE2, CHR 0x80, CHR 0x85],
      [CHR 0xE2, CHR 0x80, CHR 0x86], [CHR 0xE2, CHR 0x80, CHR 0x87],
      [CHR 0xE2, CHR 0x80, CHR 0x88], [CHR 0xE2, CHR 0x80, CHR 0x89],
      [CHR 0xE2, CHR 0x80, CHR 0x8A], [CHR 0xE2, CHR 0x80, CHR 0xA8],
      [CHR 0xE2, CHR 0x80, CHR 0xA9], [CHR 0xE2, CHR 0x80, CHR 0xAF],
      [CHR 0xE2, CHR 0x81, CHR 0x9F], [CHR 0xE3, CHR 0x80, CHR 0x80],
      [CHR 0xEF, CHR 0xBB, CHR 0xBF] ]"

text \<open>The length of the first entry of the table that the text starts with; 0 if none.\<close>

definition matchAt :: "string list \<Rightarrow> string \<Rightarrow> nat" where
  "matchAt tbl s =
     (case filter (\<lambda>w. w \<noteq> [] \<and> startsWith w s) tbl of [] \<Rightarrow> 0 | w # _ \<Rightarrow> length w)"

function dropLeading :: "string list \<Rightarrow> string \<Rightarrow> string" where
  "dropLeading tbl s =
     (if s \<noteq> [] \<and> 0 < matchAt tbl s then dropLeading tbl (drop (matchAt tbl s) s) else s)"
  by pat_completeness auto
termination
  by (relation "measure (\<lambda>(tbl, s). length s)") auto

declare dropLeading.simps [simp del]

definition trim :: "string \<Rightarrow> string" where
  "trim s = rev (dropLeading (map rev WhiteSpace) (rev (dropLeading WhiteSpace s)))"

text \<open>The \<^verbatim>\<open>i\<close> flag folds case; on these ASCII letters that is A to Z.\<close>

definition toLowerCase :: "char \<Rightarrow> char" where
  "toLowerCase c =
     (let n = (of_char c :: nat) in if 65 \<le> n \<and> n \<le> 90 then char_of (n + 32) else c)"

text \<open>\<^verbatim>\<open>.replace(/^```(json)?/i, "")\<close>: the fence at the start, and the tag after it if there.\<close>

definition stripOpeningFence :: "string \<Rightarrow> string" where
  "stripOpeningFence s =
     (if startsWith ''```'' s then
        (let r = drop 3 s in
         if map toLowerCase (take 4 r) = ''json'' then drop 4 r else r)
      else s)"

text \<open>\<^verbatim>\<open>.replace(/```$/, "")\<close>: without the \<^verbatim>\<open>m\<close> flag, the end of the whole text.\<close>

definition stripClosingFence :: "string \<Rightarrow> string" where
  "stripClosingFence s = (if endsWith ''```'' s then take (length s - 3) s else s)"

definition cleanJsonString :: "string \<Rightarrow> string" where
  "cleanJsonString txt =
     (if txt = [] then ''{}''
      else
        (let clean = trim txt in
         if startsWith ''```'' clean then stripClosingFence (stripOpeningFence clean)
         else clean))"

section \<open>Values of the runtime\<close>

text \<open>
  What \<^verbatim>\<open>JSON.parse\<close> returns and the prompt mapping stores. An object is the list
  of its own properties, in order, with no key twice. The numbers of this program are ids
  and counts, so a number is an integer here.
\<close>

datatype jsvalue =
    JNull
  | JBool bool
  | JNumber int
  | JString string
  | JArray "jsvalue list"
  | JObject "(string \<times> jsvalue) list"

text \<open>Truthiness, as \<^verbatim>\<open>!v\<close> and \<^verbatim>\<open>v || d\<close> read a value.\<close>

fun truthy :: "jsvalue \<Rightarrow> bool" where
  "truthy JNull = False"
| "truthy (JBool b) = b"
| "truthy (JNumber n) = (n \<noteq> 0)"
| "truthy (JString s) = (s \<noteq> [])"
| "truthy (JArray xs) = True"
| "truthy (JObject fs) = True"

text \<open>\<^verbatim>\<open>v.name\<close> for the property names the program reads: undefined unless \<open>v\<close> is an
  object with that property.\<close>

fun getProp :: "jsvalue \<Rightarrow> string \<Rightarrow> jsvalue option" where
  "getProp (JObject fs) name = map_of fs name"
| "getProp v name = None"

fun showNat :: "nat \<Rightarrow> string" where
  "showNat n =
     (if n < 10 then [char_of (48 + n)] else showNat (n div 10) @ [char_of (48 + n mod 10)])"

declare showNat.simps [simp del]

text \<open>
  The own enumerable properties that a spread \<^verbatim>\<open>{...v}\<close> copies; \<open>None\<close> is
  undefined. An array spreads to its indices, a string to its characters (here one per
  byte), anything else to nothing.
\<close>

fun ownProps :: "jsvalue option \<Rightarrow> (string \<times> jsvalue) list" where
  "ownProps (Some (JObject fs)) = fs"
| "ownProps (Some (JArray xs)) = zip (map showNat [0..<length xs]) xs"
| "ownProps (Some (JString s)) = zip (map showNat [0..<length s]) (map (\<lambda>c. JString [c]) s)"
| "ownProps v = []"


section \<open>The two generation operations (services/geminiService.ts)\<close>

text \<open>
  \<^verbatim>\<open>JSON.parse\<close> is the runtime's, not this program's: it is the parameter \<open>parse\<close>,
  with \<open>None\<close> for the SyntaxError it throws. \<open>call\<close> is what the upstream does with
  the request built from the arguments, attempt by attempt. The arguments only feed the
  text of the request. Both operations read \<^verbatim>\<open>result.text || "{}"\<close>, clean it,
  parse it, and return what the parse returns; an error thrown in the \<^verbatim>\<open>try\<close>
  block is replaced by the operation's own.
\<close>

definition generateStoryboard ::
  "(string \<Rightarrow> jsvalue option) \<Rightarrow> env \<Rightarrow> (nat \<Rightarrow> jserror + response) \<Rightarrow> jserror + jsvalue" where
  "generateStoryboard parse ev call =
     (case outcome (safeGenerateContent ev call) of
        Inl e \<Rightarrow> Inl e
      | Inr result \<Rightarrow>
          (let cleanText =
                 cleanJsonString
                   (case response_text result of
                      None \<Rightarrow> ''{}''
                    | Some t \<Rightarrow> if t = [] then ''{}'' else t)
           in case parse cleanText of
                Some v \<Rightarrow> Inr v
              | None \<Rightarrow>
                  Inl (Error (''Failed to parse storyboard JSON. '' @
                              ''The model output might be malformed or truncated.''))))"

definition generatePromptsForGroup ::
  "(string \<Rightarrow> jsvalue option) \<Rightarrow> env \<Rightarrow> (nat \<Rightarrow> jserror + response) \<Rightarrow> jserror + jsvalue" where
  "generatePromptsForGroup parse ev call =
     (case outcome (safeGenerateContent ev call) of
        Inl e \<Rightarrow> Inl e
      | Inr result \<Rightarrow>
          (let cleanText =
                 cleanJsonString
                   (case response_text result of
                      None \<Rightarrow> ''{}''
                    | Some t \<Rightarrow> if t = [] then ''{}'' else t)
           in case parse cleanText of
                Some v \<Rightarrow> Inr v
              | None \<Rightarrow> Inl (Error ''Failed to parse prompts JSON'')))"

text \<open>
  The required fields of \<^verbatim>\<open>promptSchema\<close>, \<^verbatim>\<open>imagePromptsSchema\<close> and
  \<^verbatim>\<open>storyboardSchema\<close>. The schemas are sent to the upstream with the request; no
  code of the program reads them again.
\<close>

definition promptRequired :: "string list" where
  "promptRequired = [''groupId'', ''imagePrompts'', ''cameraPrompts'']"

definition imagePromptsRequired :: "string list" where
  "imagePromptsRequired =
     [''shot'', ''subject'', ''environment'', ''lighting'', ''camera'', ''colorGrade'',
      ''style'', ''quality'']"

definition storyboardRequired :: "string list" where
  "storyboardRequired = [''script'', ''groups'', ''settings'']"

definition hasFields :: "string list \<Rightarrow> jsvalue \<Rightarrow> bool" where
  "hasFields names v = list_all (\<lambda>n. getProp v n \<noteq> None) names"

text \<open>
  The shape the prompt operation is expected to return: the required fields, and the
  required keys inside \<^verbatim>\<open>imagePrompts\<close>.
\<close>

definition conformsPrompt :: "jsvalue \<Rightarrow> bool" where
  "conformsPrompt v =
     (hasFields promptRequired v \<and>
      (case getProp v ''imagePrompts'' of
         None \<Rightarrow> False
       | Some ip \<Rightarrow> hasFields imagePromptsRequired ip))"

section \<open>An executable JSON reader\<close>

text \<open>
  An instance for \<open>parse\<close>, to evaluate the operations on concrete texts: the JSON
  grammar (whitespace, then one value, then whitespace) with integer numbers and the
  two-character escapes. A text with a fraction, an exponent or a \<^verbatim>\<open>\u\<close> escape is
  outside it. A later duplicate key replaces the value of the earlier one.
\<close>

definition jsonWs :: "char set" where
  "jsonWs = {CHR 0x20, CHR 0x09, CHR 0x0A, CHR 0x0D}"

definition skipWs :: "string \<Rightarrow> string" where
  "skipWs s = dropWhile (\<lambda>c. c \<in> jsonWs) s"

definition isDigit :: "char \<Rightarrow> bool" where
  "isDigit c = (48 \<le> (of_char c :: nat) \<and> (of_char c :: nat) \<le> 57)"

definition digitsValue :: "string \<Rightarrow> int" where
  "digitsValue ds = foldl (\<lambda>n c. n * 10 + (int (of_char c) - 48)) 0 ds"

text \<open>The characters of a string literal after its opening quote.\<close>

fun readString :: "string \<Rightarrow> (string \<times> string) option" where
  "readString [] = None"
| "readString (c # cs) =
     (if c = CHR 0x22 then Some ([], cs)
      else if (of_char c :: nat) < 32 then None
      else if c = CHR 0x5C then
        (case cs of
           [] \<Rightarrow> None
         | e # r \<Rightarrow>
             (case map_of
                     [(CHR 0x22, CHR 0x22), (CHR 0x5C, CHR 0x5C), (CHR ''/'', CHR ''/''),
                      (CHR ''b'', CHR 0x08), (CHR ''f'', CHR 0x0C), (CHR ''n'', CHR 0x0A),
                      (CHR ''r'', CHR 0x0D), (CHR ''t'', CHR 0x09)] e of
                None \<Rightarrow> None
              | Some d \<Rightarrow> map_option (\<lambda>(str, rest). (d # str, rest)) (readString r)))
      else map_option (\<lambda>(str, rest). (c # str, rest)) (readString cs))"

definition readNumber :: "string \<Rightarrow> (jsvalue \<times> string) option" where
  "readNumber s =
     (let neg = startsWith ''-'' s;
          body = (if neg then drop 1 s else s);
          ds = takeWhile isDigit body;
          rest = dropWhile isDigit body
      in if ds = [] \<or> (1 < length ds \<and> hd ds = CHR ''0'') then None
         else if rest \<noteq> [] \<and> hd rest \<in> {CHR ''.'', CHR ''e'', CHR ''E''} then None
         else Some (JNumber (if neg then - digitsValue ds else digitsValue ds), rest))"

fun readValue :: "nat \<Rightarrow> string \<Rightarrow> (jsvalue \<times> string) option"
  and readElements :: "nat \<Rightarrow> string \<Rightarrow> (jsvalue list \<times> string) option"
  and readMembers :: "nat \<Rightarrow> string \<Rightarrow> ((string \<times> jsvalue) list \<times> string) option" where
  "readValue 0 s = None"
| "readValue (Suc n) s =
     (case skipWs s of
        [] \<Rightarrow> None
      | c # cs \<Rightarrow>
          if c = CHR ''{'' then
            (if startsWith ''}'' (skipWs cs) then Some (JObject [], drop 1 (skipWs cs))
             else map_option
                    (\<lambda>(ms, rest). (JObject (fold (\<lambda>(k, v). AList.update k v) ms []), rest))
                    (readMembers n cs))
          else if c = CHR ''['' then
            (if startsWith '']'' (skipWs cs) then Some (JArray [], drop 1 (skipWs cs))
             else map_option (\<lambda>(vs, rest). (JArray vs, rest)) (readElements n cs))
          else if c = CHR 0x22 then
            map_option (\<lambda>(str, rest). (JString str, rest)) (readString cs)
          else if c = CHR ''-'' \<or> isDigit c then readNumber (c # cs)
          else if startsWith ''true'' (c # cs) then Some (JBool True, drop 4 (c # cs))
          else if startsWith ''false'' (c # cs) then Some (JBool False, drop 5 (c # cs))
          else if startsWith ''null'' (c # cs) then Some (JNull, drop 4 (c # cs))
          else None)"
| "readElements 0 s = None"
| "readElements (Suc n) s =
     (case readValue n s of
        None \<Rightarrow> None
      | Some (v, rest) \<Rightarrow>
          if startsWith '','' (skipWs rest) then
            map_option (\<lambda>(vs, rest'). (v # vs, rest')) (readElements n (drop 1 (skipWs rest)))
          else if startsWith '']'' (skipWs rest) then Some ([v], drop 1 (skipWs rest))
          else None)"
| "readMembers 0 s = None"
| "readMembers (Suc n) s =
     (if startsWith [CHR 0x22] (skipWs s) then
        (case readString (drop 1 (skipWs s)) of
           None \<Rightarrow> None
         | Some (k, afterKey) \<Rightarrow>
             if startsWith '':'' (skipWs afterKey) then
               (case readValue n (drop 1 (skipWs afterKey)) of
                  None \<Rightarrow> None
                | Some (v, rest) \<Rightarrow>
                    if startsWith '','' (skipWs rest) then
                      map_option (\<lambda>(ms, rest'). ((k, v) # ms, rest'))
                        (readMembers n (drop 1 (skipWs rest)))
                    else if startsWith ''}'' (skipWs rest) then
                      Some ([(k, v)], drop 1 (skipWs rest))
                    else None)
             else None)
      else None)"

text \<open>Every call reads a character before it calls again, so twice the length is fuel
  enough.\<close>

definition JSON_parse :: "string \<Rightarrow> jsvalue option" where
  "JSON_parse s =
     (let t = rev (skipWs (rev (skipWs s)))
      in case readValue (2 * length t + 2) t of
           Some (v, []) \<Rightarrow> Some v
         | _ \<Rightarrow> None)"


text \<open>
  What the sanitizer relies on, of \<^verbatim>\<open>JSON.parse\<close>: the two facts of the JSON grammar
  that whitespace (space, tab, line feed, carriage return) around a text is
  insignificant, and that a text begins, after whitespace, with the first character of
  a value.
\<close>

definition jsonFirst :: "char set" where
  "jsonFirst = insert (CHR 0x22) (set ''{[-0123456789tfn'')"

definition readsJson :: "(string \<Rightarrow> jsvalue option) \<Rightarrow> bool" where
  "readsJson parse =
     ((\<forall>w1 s w2. set w1 \<subseteq> jsonWs \<and> set w2 \<subseteq> jsonWs \<longrightarrow> parse (w1 @ s @ w2) = parse s) \<and>
      (\<forall>s v. parse s = Some v \<longrightarrow> (\<exists>c cs. skipWs s = c # cs \<and> c \<in> jsonFirst)))"

section \<open>The data of the pipeline (types.ts)\<close>

text \<open>The fields \<^verbatim>\<open>id\<close>, \<^verbatim>\<open>range\<close> and the \<^verbatim>\<open>name\<close>, \<^verbatim>\<open>description\<close>
  and \<^verbatim>\<open>prompt\<close> of a setting item carry the name of their record, since HOL has
  constants \<open>id\<close> and \<open>range\<close> and a record's field names are global.\<close>

record Shot =
  shot_id :: int
  description :: string
  voiceover :: string
  movement :: string

record Group =
  group_id :: int
  group_range :: string
  narrative :: string

record AIPromptItem =
  item_name :: string
  item_description :: string
  item_prompt :: string

record StoryboardSettings =
  overview :: string
  style :: string
  characters :: "AIPromptItem list"
  scenes :: "AIPromptItem list"

record StoryboardData =
  script :: "Shot list"
  groups :: "Group list"
  settings :: StoryboardSettings
  rawResponse :: string

datatype AppState =
    IDLE
  | GENERATING_STORYBOARD
  | REVIEW_STORYBOARD
  | GENERATING_PROMPTS
  | VIEW_PROMPTS

record BatchProgress =
  current :: nat
  total :: nat

text \<open>
  The state of the \<^verbatim>\<open>App\<close> component. \<open>prompts\<close> is the
  \<^verbatim>\<open>Record<number, PromptData>\<close>; what it stores is whatever the prompt operation
  returned, so its values are \<^typ>\<open>jsvalue\<close>.
\<close>

record app =
  appState :: AppState
  storyboard :: "StoryboardData option"
  prompts :: "int \<rightharpoonup> jsvalue"
  currentGroupId :: "int option"
  error :: "string option"
  selectedModel :: string
  batchProgress :: "BatchProgress option"

section \<open>The generation queue: \<^verbatim>\<open>runGenerationQueue\<close> (App.tsx)\<close>

text \<open>
  \<^verbatim>\<open>Array.prototype.slice(start, end)\<close>: a negative index counts from the end, and
  both are clamped to the array.
\<close>

definition slice :: "'a list \<Rightarrow> int \<Rightarrow> int \<Rightarrow> 'a list" where
  "slice xs start fin =
     (let len = int (length xs);
          k = (if start < 0 then max (len + start) 0 else min start len);
          final = (if fin < 0 then max (len + fin) 0 else min fin len)
      in take (nat (final - k)) (drop (nat k) xs))"

text \<open>The arguments of one call of \<^verbatim>\<open>generatePromptsForGroup\<close>.\<close>

record promptRequest =
  req_groupId :: int
  req_groupNarrative :: string
  req_shots :: "Shot list"
  req_settings :: StoryboardSettings
  req_modelName :: string

text \<open>
  One execution of the loop body: the work item, the request it passed to the prompt
  operation, what the operation did, and the state at the end of the body.
\<close>

record iteration =
  item :: Group
  request :: promptRequest
  result :: "jserror + jsvalue"
  published :: app

text \<open>
  The body, for the item at index \<open>i\<close> of a work list of \<open>n\<close>. \<open>gen i rq\<close> is what
  the prompt operation does when the body at index \<open>i\<close> calls it with \<open>rq\<close>: it
  returns the data or throws. The \<^verbatim>\<open>catch\<close> logs what was thrown and goes on.
  \<open>sb\<close> is the storyboard of the render that started the run. The pause of 500 ms
  that ends the body changes no state and is left out.
\<close>

definition processGroup ::
  "(nat \<Rightarrow> promptRequest \<Rightarrow> jserror + jsvalue) \<Rightarrow> StoryboardData \<Rightarrow> nat \<Rightarrow> nat \<Rightarrow> Group \<Rightarrow> app
     \<Rightarrow> iteration" where
  "processGroup gen sb n i g s =
     (let s1 = s\<lparr>currentGroupId := Some (group_id g)\<rparr>;
          startIdx = (group_id g - 1) * 4;
          groupShots = slice (script sb) startIdx (startIdx + 4);
          rq = \<lparr>req_groupId = group_id g, req_groupNarrative = narrative g,
                req_shots = groupShots, req_settings = settings sb,
                req_modelName = selectedModel s\<rparr>;
          s2 = (case gen i rq of
                  Inr data \<Rightarrow> s1\<lparr>prompts := (prompts s1)(group_id g \<mapsto> data)\<rparr>
                | Inl e \<Rightarrow> s1)
      in \<lparr>item = g, request = rq, result = gen i rq,
          published = s2\<lparr>batchProgress := Some \<lparr>current = i + 1, total = n\<rparr>\<rparr>\<rparr>)"

text \<open>The \<^verbatim>\<open>for\<close> loop from index \<open>i\<close> on, as the list of its iterations.\<close>

fun queueLoop ::
  "(nat \<Rightarrow> promptRequest \<Rightarrow> jserror + jsvalue) \<Rightarrow> StoryboardData \<Rightarrow> nat \<Rightarrow> nat \<Rightarrow> Group list \<Rightarrow> app
     \<Rightarrow> iteration list" where
  "queueLoop gen sb n i [] s = []"
| "queueLoop gen sb n i (g # gs) s =
     (let it = processGroup gen sb n i g s
      in it # queueLoop gen sb n (i + 1) gs (published it))"

text \<open>The state the loop leaves: the one the last iteration published.\<close>

definition stateAfter :: "app \<Rightarrow> iteration list \<Rightarrow> app" where
  "stateAfter s its = (if its = [] then s else published (last its))"

text \<open>
  One call of \<^verbatim>\<open>runGenerationQueue\<close>: the state once the progress is set up
  (\<open>None\<close> when the guard returned at once), the iterations, and the state when the call
  is over.
\<close>

record run =
  started :: "app option"
  iterations :: "iteration list"
  finished :: app

definition runGenerationQueue ::
  "(nat \<Rightarrow> promptRequest \<Rightarrow> jserror + jsvalue) \<Rightarrow> Group list \<Rightarrow> app \<Rightarrow> run" where
  "runGenerationQueue gen groupsToProcess s =
     (case storyboard s of
        None \<Rightarrow> \<lparr>started = None, iterations = [], finished = s\<rparr>
      | Some sb \<Rightarrow>
          (let s0 = s\<lparr>appState := GENERATING_PROMPTS,
                       batchProgress := Some \<lparr>current = 0, total = length groupsToProcess\<rparr>\<rparr>;
               its = queueLoop gen sb (length groupsToProcess) 0 groupsToProcess s0
           in \<lparr>started = Some s0, iterations = its,
               finished = (stateAfter s0 its)\<lparr>batchProgress := None, appState := VIEW_PROMPTS\<rparr>\<rparr>))"

text \<open>
  The prompt operation as \<^verbatim>\<open>App\<close> hands it to the queue:
  \<^verbatim>\<open>generatePromptsForGroup\<close> on the request, where \<open>upstream i rq\<close> is what the
  upstream does, attempt by attempt, with the request of the iteration at index \<open>i\<close>.
\<close>

definition promptOperation ::
  "(string \<Rightarrow> jsvalue option) \<Rightarrow> env \<Rightarrow> (nat \<Rightarrow> promptRequest \<Rightarrow> nat \<Rightarrow> jserror + response)
     \<Rightarrow> nat \<Rightarrow> promptRequest \<Rightarrow> jserror + jsvalue" where
  "promptOperation parse ev upstream i rq = generatePromptsForGroup parse ev (upstream i rq)"

section \<open>The handlers (App.tsx, components/PromptDisplay.tsx)\<close>

text \<open>\<^verbatim>\<open>!prompts[g.id]\<close>: no entry, or an entry that is falsy.\<close>

definition hasPrompt :: "(int \<rightharpoonup> jsvalue) \<Rightarrow> int \<Rightarrow> bool" where
  "hasPrompt ps i = (case ps i of None \<Rightarrow> False | Some v \<Rightarrow> truthy v)"

text \<open>
  A handler returns the state it leaves and the queue run it started, if any.
  \<^verbatim>\<open>!currentGroupId\<close> holds for null and for 0.
\<close>

definition handleConfirmStoryboard ::
  "(nat \<Rightarrow> promptRequest \<Rightarrow> jserror + jsvalue) \<Rightarrow> app \<Rightarrow> app \<times> run option" where
  "handleConfirmStoryboard gen s =
     (case storyboard s of
        None \<Rightarrow> (s, None)
      | Some sb \<Rightarrow>
          (case groups sb of
             [] \<Rightarrow> (s, None)
           | g0 # _ \<Rightarrow>
               (let s1 = s\<lparr>appState := VIEW_PROMPTS\<rparr>;
                    missingGroups = filter (\<lambda>g. \<not> hasPrompt (prompts s) (group_id g)) (groups sb)
                in if length missingGroups > 0 then
                     (let r = runGenerationQueue gen missingGroups s1 in (finished r, Some r))
                   else if currentGroupId s = None \<or> currentGroupId s = Some 0 then
                     (s1\<lparr>currentGroupId := Some (group_id g0)\<rparr>, None)
                   else (s1, None))))"

text \<open>\<open>confirmed\<close> is the answer to the \<^verbatim>\<open>confirm\<close> dialog.\<close>

definition handleRegenerateAll ::
  "(nat \<Rightarrow> promptRequest \<Rightarrow> jserror + jsvalue) \<Rightarrow> bool \<Rightarrow> app \<Rightarrow> app \<times> run option" where
  "handleRegenerateAll gen confirmed s =
     (case storyboard s of
        None \<Rightarrow> (s, None)
      | Some sb \<Rightarrow>
          if \<not> confirmed then (s, None)
          else (let r = runGenerationQueue gen (groups sb) (s\<lparr>prompts := Map.empty\<rparr>)
                in (finished r, Some r)))"

definition handleRegenerateGroup ::
  "(nat \<Rightarrow> promptRequest \<Rightarrow> jserror + jsvalue) \<Rightarrow> int \<Rightarrow> app \<Rightarrow> app \<times> run option" where
  "handleRegenerateGroup gen groupId s =
     (case storyboard s of
        None \<Rightarrow> (s, None)
      | Some sb \<Rightarrow>
          (case find (\<lambda>g. group_id g = groupId) (groups sb) of
             None \<Rightarrow> (s, None)
           | Some g \<Rightarrow> (let r = runGenerationQueue gen [g] s in (finished r, Some r))))"

text \<open>
  \<^verbatim>\<open>handleUpdatePromptData\<close>: the entry of the group is spread, and its
  \<^verbatim>\<open>imagePrompts\<close> set.
\<close>

definition handleUpdatePromptData :: "int \<Rightarrow> jsvalue \<Rightarrow> app \<Rightarrow> app" where
  "handleUpdatePromptData groupId newImagePrompts s =
     s\<lparr>prompts := (prompts s)(groupId \<mapsto>
          JObject (AList.update ''imagePrompts'' newImagePrompts (ownProps (prompts s groupId))))\<rparr>"

text \<open>
  \<^verbatim>\<open>PromptDisplay\<close> reads \<^verbatim>\<open>currentGroupId ? prompts[currentGroupId] : null\<close>.
  \<^verbatim>\<open>saveEdit\<close> spreads the \<^verbatim>\<open>imagePrompts\<close> of that entry, sets the edited key to
  the text of the edit box, and hands the result to \<^verbatim>\<open>onUpdatePrompt\<close>, which
  is \<^verbatim>\<open>handleUpdatePromptData\<close>. (It also closes the edit box, a state of the component
  that no other code reads.)
\<close>

definition currentPrompt :: "app \<Rightarrow> jsvalue option" where
  "currentPrompt s =
     (case currentGroupId s of
        None \<Rightarrow> None
      | Some g \<Rightarrow> if g = 0 then None else prompts s g)"

definition saveEdit :: "string \<Rightarrow> string \<Rightarrow> app \<Rightarrow> app" where
  "saveEdit key editValue s =
     (case currentGroupId s of
        None \<Rightarrow> s
      | Some g \<Rightarrow>
          if g = 0 then s
          else
            (case currentPrompt s of
               None \<Rightarrow> s
             | Some cp \<Rightarrow>
                 if \<not> truthy cp then s
                 else
                   (let updatedImagePrompts =
                          JObject (AList.update key (JString editValue)
                                     (ownProps (getProp cp ''imagePrompts'')))
                    in handleUpdatePromptData g updatedImagePrompts s)))"


section \<open>The example scenario\<close>

text \<open>
  The scenario of the specification: a script of 8 shots in 2 groups, under review, with
  no prompts yet. The upstream of the example answers the first item of a run with a
  refusal in prose and every later one with a fenced object, with no retry needed;
  \<open>exampleGen\<close> is the prompt operation over it.
\<close>

definition exampleShot :: "int \<Rightarrow> Shot" where
  "exampleShot n =
     \<lparr>shot_id = n, description = ''rain'', voiceover = ''steps'', movement = ''pan''\<rparr>"

definition exampleSettings :: StoryboardSettings where
  "exampleSettings =
     \<lparr>overview = ''a rainy city'', style = ''noir'', characters = [], scenes = []\<rparr>"

definition exampleStoryboard :: StoryboardData where
  "exampleStoryboard =
     \<lparr>script = map exampleShot [1, 2, 3, 4, 5, 6, 7, 8],
      groups = [\<lparr>group_id = 1, group_range = ''1-4'', narrative = ''chase''\<rparr>,
                \<lparr>group_id = 2, group_range = ''5-8'', narrative = ''escape''\<rparr>],
      settings = exampleSettings, rawResponse = []\<rparr>"

definition exampleApp :: app where
  "exampleApp =
     \<lparr>appState = REVIEW_STORYBOARD, storyboard = Some exampleStoryboard, prompts = Map.empty,
      currentGroupId = None, error = None, selectedModel = ''gemini-3-flash-preview'',
      batchProgress = None\<rparr>"

definition exampleUpstream :: "nat \<Rightarrow> promptRequest \<Rightarrow> nat \<Rightarrow> jserror + response" where
  "exampleUpstream i rq =
     (\<lambda>attempt.
        Inr \<lparr>response_text =
               Some (if i = 0 then ''I cannot help with that.''
                     else ''```json\<newline>{\"groupId\": 2}\<newline>```'')\<rparr>)"

definition exampleGen :: "nat \<Rightarrow> promptRequest \<Rightarrow> jserror + jsvalue" where
  "exampleGen = promptOperation JSON_parse \<lparr>genAI = True, API_KEY = None\<rparr> exampleUpstream"

text \<open>A prompt operation that answers with what it was handed: the id and the narrative
  of the group and the ids of the shots.\<close>

definition echoGen :: "nat \<Rightarrow> promptRequest \<Rightarrow> jserror + jsvalue" where
  "echoGen i rq =
     Inr (JObject
            [(''groupId'', JNumber (req_groupId rq)),
             (''cameraPrompts'', JString (req_groupNarrative rq)),
             (''shots'', JArray (map (\<lambda>sh. JNumber (shot_id sh)) (req_shots rq)))])"

text \<open>A bundle with no groups, as an import can supply it.\<close>

definition emptyApp :: app where
  "emptyApp =
     exampleApp\<lparr>storyboard := Some (exampleStoryboard\<lparr>script := [], groups := []\<rparr>)\<rparr>"

text \<open>A prompt result with every field of the schema, and the state of a review with
  one for each group and the second group selected.\<close>

definition examplePrompt :: "int \<Rightarrow> jsvalue" where
  "examplePrompt n =
     JObject
       [(''groupId'', JNumber n),
        (''imagePrompts'',
         JObject
           [(''shot'', JString ''grid''), (''subject'', JString ''detective''),
            (''environment'', JString ''street''), (''lighting'', JString ''neon''),
            (''camera'', JString ''low''), (''colorGrade'', JString ''teal''),
            (''style'', JString ''noir''), (''quality'', JString ''8k'')]),
        (''cameraPrompts'', JString ''Shot 1: push in'')]"

definition reviewApp :: app where
  "reviewApp =
     exampleApp\<lparr>appState := VIEW_PROMPTS,
                 prompts := [1 \<mapsto> examplePrompt 1, 2 \<mapsto> examplePrompt 2],
                 currentGroupId := Some 2\<rparr>"

section \<open>Properties of the retry policy\<close>

lemma retryLoop_returns:
  "i \<le> 3 \<Longrightarrow> call i = Inr r \<Longrightarrow>
   retryLoop call i d sl = \<lparr>outcome = Inr r, attempts = i + 1, sleeps = sl\<rparr>"
  by (subst retryLoop.simps) (simp add: maxRetries_def)

lemma retryLoop_retries:
  "i < 3 \<Longrightarrow> call i = Inl e \<Longrightarrow> isQuotaError e \<Longrightarrow>
   retryLoop call i d sl = retryLoop call (i + 1) (d * 2) (sl @ [d])"
  by (subst retryLoop.simps) (simp add: maxRetries_def)

lemma retryLoop_throws:
  "i \<le> 3 \<Longrightarrow> call i = Inl e \<Longrightarrow> \<not> isQuotaError e \<or> i = 3 \<Longrightarrow>
   retryLoop call i d sl = \<lparr>outcome = Inl e, attempts = i + 1, sleeps = sl\<rparr>"
  by (subst retryLoop.simps) (auto simp: maxRetries_def)

text \<open>\<open>k\<close> transient failures in a row cost \<open>k\<close> pauses, each twice the one before.\<close>

lemma retryLoop_skip:
  "i + k \<le> 3 \<Longrightarrow> \<forall>j<k. \<exists>e. call (i + j) = Inl e \<and> isQuotaError e \<Longrightarrow>
   retryLoop call i d sl =
   retryLoop call (i + k) (d * 2 ^ k) (sl @ map (\<lambda>j. d * 2 ^ j) [0..<k])"
proof (induction k)
  case 0
  then show ?case by simp
next
  case (Suc k)
  then have "retryLoop call i d sl =
      retryLoop call (i + k) (d * 2 ^ k) (sl @ map (\<lambda>j. d * 2 ^ j) [0..<k])"
    by simp
  moreover from Suc.prems obtain e where "call (i + k) = Inl e" "isQuotaError e"
    by blast
  ultimately show ?case
    using Suc.prems(1) by (simp add: retryLoop_retries [of "i + k" call e] ac_simps)
qed

lemma backoff_delays:
  "k \<le> 3 \<Longrightarrow> map (\<lambda>j. 2000 * 2 ^ j) [0..<k] = take k [2000, 4000, 8000 :: nat]"
proof -
  assume "k \<le> 3"
  then consider "k = 0" | "k = 1" | "k = 2" | "k = 3" by arith
  then show ?thesis
    by cases (simp_all add: numeral_2_eq_2 numeral_3_eq_3)
qed

text \<open>
  C1. With a client at hand, a wrapped call behaves in one of three ways. (a) If the
  upstream fails with a transient capacity error (one that \<open>isQuotaError\<close> accepts) at
  the first \<open>k \<le> 3\<close> attempts and then returns, the wrapper returns that response after
  exactly \<open>k + 1\<close> attempts, having slept the first \<open>k\<close> of 2000, 4000, 8000 ms.
  (b) If the upstream fails transiently at all of the first four attempts, the wrapper
  throws the error of the fourth after exactly 4 attempts and the three pauses.
  (c) An error that is not transient is thrown at the attempt where it occurs, with no
  further attempt and no further pause.
\<close>

theorem safeGenerateContent_retry:
  assumes ai: "getAI ev = Inr ai"
  shows "(k \<le> 3 \<and> (\<forall>j<k. \<exists>e. call j = Inl e \<and> isQuotaError e) \<and> call k = Inr r \<longrightarrow>
            safeGenerateContent ev call =
              \<lparr>outcome = Inr r, attempts = k + 1, sleeps = take k [2000, 4000, 8000]\<rparr>) \<and>
         ((\<forall>j\<le>3. \<exists>e. call j = Inl e \<and> isQuotaError e) \<longrightarrow>
            safeGenerateContent ev call =
              \<lparr>outcome = call 3, attempts = 4, sleeps = [2000, 4000, 8000]\<rparr>) \<and>
         (k \<le> 3 \<and> (\<forall>j<k. \<exists>e. call j = Inl e \<and> isQuotaError e) \<and>
            call k = Inl x \<and> \<not> isQuotaError x \<longrightarrow>
            safeGenerateContent ev call =
              \<lparr>outcome = Inl x, attempts = k + 1, sleeps = take k [2000, 4000, 8000]\<rparr>)"
proof (intro conjI impI)
  have run: "safeGenerateContent ev call = retryLoop call 0 2000 []"
    by (simp add: safeGenerateContent_def ai)
  have skip: "retryLoop call 0 2000 [] =
      retryLoop call n (2000 * 2 ^ n) (take n [2000, 4000, 8000])"
    if "n \<le> 3" "\<forall>j<n. \<exists>e. call j = Inl e \<and> isQuotaError e" for n
    using retryLoop_skip [of 0 n call 2000 "[]"] that by (simp add: backoff_delays)
  {
    assume h: "k \<le> 3 \<and> (\<forall>j<k. \<exists>e. call j = Inl e \<and> isQuotaError e) \<and> call k = Inr r"
    then show "safeGenerateContent ev call =
              \<lparr>outcome = Inr r, attempts = k + 1, sleeps = take k [2000, 4000, 8000]\<rparr>"
      using skip [of k] by (simp add: run retryLoop_returns)
  }
  {
    assume h: "\<forall>j\<le>3. \<exists>e. call j = Inl e \<and> isQuotaError e"
    then obtain e where e: "call 3 = Inl e" by blast
    from h have "\<forall>j<3. \<exists>e. call j = Inl e \<and> isQuotaError e" by simp
    then have "retryLoop call 0 2000 [] = retryLoop call 3 (2000 * 2 ^ 3) [2000, 4000, 8000]"
      using skip [of 3] by simp
    then show "safeGenerateContent ev call =
              \<lparr>outcome = call 3, attempts = 4, sleeps = [2000, 4000, 8000]\<rparr>"
      using e by (simp add: run retryLoop_throws [of 3 call e])
  }
  {
    assume h: "k \<le> 3 \<and> (\<forall>j<k. \<exists>e. call j = Inl e \<and> isQuotaError e) \<and>
            call k = Inl x \<and> \<not> isQuotaError x"
    then show "safeGenerateContent ev call =
              \<lparr>outcome = Inl x, attempts = k + 1, sleeps = take k [2000, 4000, 8000]\<rparr>"
      using skip [of k] by (simp add: run retryLoop_throws)
  }
qed

lemma isQuotaError_examples:
  "isQuotaError (Error ''RESOURCE_EXHAUSTED'')"
  "isQuotaError \<lparr>status = Some 429, code = None, message = None\<rparr>"
  "\<not> isQuotaError (Error ''boom'')"
  by (simp_all add: isQuotaError_def Error_def startsWith_def)

theorem safeGenerateContent_retry_witness:
  "getAI \<lparr>genAI = False, API_KEY = Some ''key''\<rparr> = Inr \<lparr>genAI = True, API_KEY = Some ''key''\<rparr> \<and>
   safeGenerateContent \<lparr>genAI = False, API_KEY = Some ''key''\<rparr>
       (\<lambda>i. if i < 2 then Inl (Error ''RESOURCE_EXHAUSTED'') else Inr \<lparr>response_text = Some ''{}''\<rparr>) =
     \<lparr>outcome = Inr \<lparr>response_text = Some ''{}''\<rparr>, attempts = 3, sleeps = [2000, 4000]\<rparr> \<and>
   safeGenerateContent \<lparr>genAI = False, API_KEY = Some ''key''\<rparr>
       (\<lambda>i. Inl \<lparr>status = Some 429, code = None, message = None\<rparr>) =
     \<lparr>outcome = Inl \<lparr>status = Some 429, code = None, message = None\<rparr>, attempts = 4,
      sleeps = [2000, 4000, 8000]\<rparr> \<and>
   safeGenerateContent \<lparr>genAI = False, API_KEY = Some ''key''\<rparr>
       (\<lambda>i. if i < 1 then Inl (Error ''RESOURCE_EXHAUSTED'') else Inl (Error ''boom'')) =
     \<lparr>outcome = Inl (Error ''boom''), attempts = 2, sleeps = [2000]\<rparr>"
proof -
  let ?ev = "\<lparr>genAI = False, API_KEY = Some ''key''\<rparr>"
  have ai: "getAI ?ev = Inr \<lparr>genAI = True, API_KEY = Some ''key''\<rparr>"
    by (simp add: getAI_def)
  note q = isQuotaError_examples
  from safeGenerateContent_retry [OF ai, of 2
      "\<lambda>i. if i < 2 then Inl (Error ''RESOURCE_EXHAUSTED'') else Inr \<lparr>response_text = Some ''{}''\<rparr>"
      "\<lparr>response_text = Some ''{}''\<rparr>"]
  have a: "safeGenerateContent ?ev
       (\<lambda>i. if i < 2 then Inl (Error ''RESOURCE_EXHAUSTED'') else Inr \<lparr>response_text = Some ''{}''\<rparr>) =
     \<lparr>outcome = Inr \<lparr>response_text = Some ''{}''\<rparr>, attempts = 3, sleeps = [2000, 4000]\<rparr>"
    by (simp add: q)
  from safeGenerateContent_retry [OF ai, of _ "\<lambda>i. Inl \<lparr>status = Some 429, code = None, message = None\<rparr>"]
  have b: "safeGenerateContent ?ev (\<lambda>i. Inl \<lparr>status = Some 429, code = None, message = None\<rparr>) =
     \<lparr>outcome = Inl \<lparr>status = Some 429, code = None, message = None\<rparr>, attempts = 4,
      sleeps = [2000, 4000, 8000]\<rparr>"
    by (simp add: q)
  from safeGenerateContent_retry [OF ai, of 1
      "\<lambda>i. if i < 1 then Inl (Error ''RESOURCE_EXHAUSTED'') else Inl (Error ''boom'')" _ "Error ''boom''"]
  have c: "safeGenerateContent ?ev
       (\<lambda>i. if i < 1 then Inl (Error ''RESOURCE_EXHAUSTED'') else Inl (Error ''boom'')) =
     \<lparr>outcome = Inl (Error ''boom''), attempts = 2, sleeps = [2000]\<rparr>"
    by (simp add: q)
  from ai a b c show ?thesis by simp
qed

section \<open>Properties of the sanitizer and the generation operations\<close>

lemma cleanJsonString_empty_object: "cleanJsonString ''{}'' = ''{}''"
  by code_simp

lemma JSON_parse_empty_object: "JSON_parse ''{}'' = Some (JObject [])"
  by code_simp

text \<open>What both operations do with a response: they return what the parse of the cleaned
  text returns, and throw their own error if it throws.\<close>

lemma generatePromptsForGroup_result:
  "outcome (safeGenerateContent ev call) = Inr resp \<Longrightarrow>
   generatePromptsForGroup parse ev call =
     (case parse (cleanJsonString
                    (case response_text resp of
                       None \<Rightarrow> ''{}''
                     | Some t \<Rightarrow> if t = [] then ''{}'' else t)) of
        Some v \<Rightarrow> Inr v
      | None \<Rightarrow> Inl (Error ''Failed to parse prompts JSON''))"
  by (simp add: generatePromptsForGroup_def Let_def)

lemma generateStoryboard_result:
  "outcome (safeGenerateContent ev call) = Inr resp \<Longrightarrow>
   generateStoryboard parse ev call =
     (case parse (cleanJsonString
                    (case response_text resp of
                       None \<Rightarrow> ''{}''
                     | Some t \<Rightarrow> if t = [] then ''{}'' else t)) of
        Some v \<Rightarrow> Inr v
      | None \<Rightarrow>
          Inl (Error (''Failed to parse storyboard JSON. '' @
                      ''The model output might be malformed or truncated.'')))"
  by (simp add: generateStoryboard_def Let_def)

lemma safeGenerateContent_first_answer:
  "outcome (safeGenerateContent \<lparr>genAI = True, API_KEY = None\<rparr> (\<lambda>i. Inr r)) = Inr r"
  by (simp add: safeGenerateContent_def getAI_def retryLoop.simps maxRetries_def)

text \<open>
  C10. When the wrapped call returns a response whose text is absent or empty, the
  text that is cleaned and parsed is the literal \<^verbatim>\<open>{}\<close> (and the sanitizer itself
  maps the empty text to it). So with a parse that reads \<^verbatim>\<open>{}\<close> as the empty object,
  as \<^verbatim>\<open>JSON.parse\<close> does, the script operation and the prompt operation both return
  the empty object as a success: an object with no property at all, which has none of
  the required fields.
\<close>

theorem empty_text_is_empty_object:
  assumes "parse ''{}'' = Some (JObject [])"
    and "outcome (safeGenerateContent ev call) = Inr resp"
    and "response_text resp = None \<or> response_text resp = Some []"
  shows "cleanJsonString [] = ''{}'' \<and>
         generateStoryboard parse ev call = Inr (JObject []) \<and>
         generatePromptsForGroup parse ev call = Inr (JObject []) \<and>
         (\<forall>name. getProp (JObject []) name = None) \<and>
         \<not> conformsPrompt (JObject []) \<and>
         \<not> hasFields storyboardRequired (JObject [])"
proof -
  have t: "(case response_text resp of
              None \<Rightarrow> ''{}''
            | Some t \<Rightarrow> if t = [] then ''{}'' else t) = ''{}''"
    using assms(3) by auto
  have a: "generateStoryboard parse ev call = Inr (JObject [])"
    by (simp only: generateStoryboard_result [OF assms(2)] t cleanJsonString_empty_object
        assms(1) option.case)
  have b: "generatePromptsForGroup parse ev call = Inr (JObject [])"
    by (simp only: generatePromptsForGroup_result [OF assms(2)] t cleanJsonString_empty_object
        assms(1) option.case)
  have c: "cleanJsonString [] = ''{}''"
    by (simp add: cleanJsonString_def)
  have d: "\<not> conformsPrompt (JObject [])" "\<not> hasFields storyboardRequired (JObject [])"
    by (simp_all add: conformsPrompt_def hasFields_def promptRequired_def
        storyboardRequired_def)
  from a b c d show ?thesis
    by simp
qed

theorem empty_text_is_empty_object_witness:
  "JSON_parse ''{}'' = Some (JObject []) \<and>
   generateStoryboard JSON_parse \<lparr>genAI = True, API_KEY = None\<rparr>
       (\<lambda>i. Inr \<lparr>response_text = None\<rparr>) = Inr (JObject []) \<and>
   generatePromptsForGroup JSON_parse \<lparr>genAI = True, API_KEY = None\<rparr>
       (\<lambda>i. Inr \<lparr>response_text = None\<rparr>) = Inr (JObject []) \<and>
   generatePromptsForGroup JSON_parse \<lparr>genAI = True, API_KEY = None\<rparr>
       (\<lambda>i. Inr \<lparr>response_text = Some []\<rparr>) = Inr (JObject [])"
proof -
  let ?ev = "\<lparr>genAI = True, API_KEY = None\<rparr>"
  note p = JSON_parse_empty_object
  have absent: "response_text \<lparr>response_text = None\<rparr> = None \<or>
                response_text \<lparr>response_text = None\<rparr> = Some []"
    and empty: "response_text \<lparr>response_text = Some []\<rparr> = None \<or>
                response_text \<lparr>response_text = Some []\<rparr> = Some []"
    by simp_all
  note a = empty_text_is_empty_object
      [where parse = JSON_parse and ev = ?ev and call = "\<lambda>i. Inr \<lparr>response_text = None\<rparr>"
         and resp = "\<lparr>response_text = None\<rparr>",
       OF p safeGenerateContent_first_answer absent]
  note b = empty_text_is_empty_object
      [where parse = JSON_parse and ev = ?ev and call = "\<lambda>i. Inr \<lparr>response_text = Some []\<rparr>"
         and resp = "\<lparr>response_text = Some []\<rparr>",
       OF p safeGenerateContent_first_answer empty]
  from p a [THEN conjunct2, THEN conjunct1] a [THEN conjunct2, THEN conjunct2, THEN conjunct1]
    b [THEN conjunct2, THEN conjunct2, THEN conjunct1]
  show ?thesis
    by (intro conjI)
qed

text \<open>
  C4, as the claim states it, fails: a response that parses but lacks required fields is
  returned as it is. The first payload has every field of the prompt schema but only one
  of the eight keys of \<^verbatim>\<open>imagePrompts\<close>; the second has no field at all.
\<close>

theorem generatePromptsForGroup_counterexample:
  "JSON_parse ''{\"groupId\": 1, \"imagePrompts\": {\"shot\": \"grid\"}, \"cameraPrompts\": \"pan\"}'' =
     Some (JObject [(''groupId'', JNumber 1),
                    (''imagePrompts'', JObject [(''shot'', JString ''grid'')]),
                    (''cameraPrompts'', JString ''pan'')]) \<and>
   \<not> conformsPrompt (JObject [(''groupId'', JNumber 1),
                    (''imagePrompts'', JObject [(''shot'', JString ''grid'')]),
                    (''cameraPrompts'', JString ''pan'')]) \<and>
   generatePromptsForGroup JSON_parse \<lparr>genAI = True, API_KEY = None\<rparr>
       (\<lambda>i. Inr \<lparr>response_text =
          Some ''{\"groupId\": 1, \"imagePrompts\": {\"shot\": \"grid\"}, \"cameraPrompts\": \"pan\"}''\<rparr>) =
     Inr (JObject [(''groupId'', JNumber 1),
                   (''imagePrompts'', JObject [(''shot'', JString ''grid'')]),
                   (''cameraPrompts'', JString ''pan'')]) \<and>
   \<not> hasFields storyboardRequired (JObject []) \<and>
   generateStoryboard JSON_parse \<lparr>genAI = True, API_KEY = None\<rparr>
       (\<lambda>i. Inr \<lparr>response_text = Some ''{}''\<rparr>) = Inr (JObject [])"
proof -
  let ?t = "''{\"groupId\": 1, \"imagePrompts\": {\"shot\": \"grid\"}, \"cameraPrompts\": \"pan\"}''"
  let ?v = "JObject [(''groupId'', JNumber 1),
                    (''imagePrompts'', JObject [(''shot'', JString ''grid'')]),
                    (''cameraPrompts'', JString ''pan'')]"
  have clean: "cleanJsonString ?t = ?t"
    by code_simp
  have parse: "JSON_parse ?t = Some ?v"
    by code_simp
  have shape: "\<not> conformsPrompt ?v"
    by (simp add: conformsPrompt_def hasFields_def imagePromptsRequired_def)
  have shape': "\<not> hasFields storyboardRequired (JObject [])"
    by (simp add: hasFields_def storyboardRequired_def)
  have ne: "?t \<noteq> []"
    by simp
  have run: "generatePromptsForGroup JSON_parse \<lparr>genAI = True, API_KEY = None\<rparr>
       (\<lambda>i. Inr \<lparr>response_text = Some ?t\<rparr>) = Inr ?v"
    by (simp only: generatePromptsForGroup_result [OF safeGenerateContent_first_answer]
        response.simps option.case ne if_False clean parse)
  have run': "generateStoryboard JSON_parse \<lparr>genAI = True, API_KEY = None\<rparr>
       (\<lambda>i. Inr \<lparr>response_text = Some ''{}''\<rparr>) = Inr (JObject [])"
    by (simp add: generateStoryboard_result [OF safeGenerateContent_first_answer]
        cleanJsonString_empty_object JSON_parse_empty_object)
  from parse shape run shape' run' show ?thesis
    by (intro conjI)
qed

text \<open>
  C4, amended. When the wrapped call returns a response, each operation returns exactly
  what the parse of the cleaned text returns, whatever fields it has or lacks: no code
  checks the shape. Only a text that does not parse raises an error, and it is the
  operation's own fixed parse error.
\<close>

theorem generation_returns_the_parse:
  assumes "outcome (safeGenerateContent ev call) = Inr resp"
    and "cleanText =
           cleanJsonString
             (case response_text resp of
                None \<Rightarrow> ''{}''
              | Some t \<Rightarrow> if t = [] then ''{}'' else t)"
  shows "(\<forall>v. parse cleanText = Some v \<longrightarrow>
            generatePromptsForGroup parse ev call = Inr v \<and>
            generateStoryboard parse ev call = Inr v) \<and>
         (parse cleanText = None \<longrightarrow>
            generatePromptsForGroup parse ev call =
              Inl (Error ''Failed to parse prompts JSON'') \<and>
            generateStoryboard parse ev call =
              Inl (Error (''Failed to parse storyboard JSON. '' @
                          ''The model output might be malformed or truncated.'')))"
  by (simp add: generatePromptsForGroup_result [OF assms(1)]
      generateStoryboard_result [OF assms(1)] assms(2) del: append.simps)

theorem generation_returns_the_parse_witness:
  "generatePromptsForGroup JSON_parse \<lparr>genAI = True, API_KEY = None\<rparr>
       (\<lambda>i. Inr \<lparr>response_text = Some ''{}''\<rparr>) = Inr (JObject []) \<and>
   generateStoryboard JSON_parse \<lparr>genAI = True, API_KEY = None\<rparr>
       (\<lambda>i. Inr \<lparr>response_text = Some ''{}''\<rparr>) = Inr (JObject []) \<and>
   generatePromptsForGroup JSON_parse \<lparr>genAI = True, API_KEY = None\<rparr>
       (\<lambda>i. Inr \<lparr>response_text = Some ''I cannot''\<rparr>) =
     Inl (Error ''Failed to parse prompts JSON'')"
proof -
  let ?ev = "\<lparr>genAI = True, API_KEY = None\<rparr>"
  have c1: "''{}'' =
      cleanJsonString
        (case response_text \<lparr>response_text = Some ''{}''\<rparr> of
           None \<Rightarrow> ''{}''
         | Some t \<Rightarrow> if t = [] then ''{}'' else t)"
    by (simp add: cleanJsonString_empty_object)
  have "cleanJsonString ''I cannot'' = ''I cannot''"
    by code_simp
  then have c2: "''I cannot'' =
      cleanJsonString
        (case response_text \<lparr>response_text = Some ''I cannot''\<rparr> of
           None \<Rightarrow> ''{}''
         | Some t \<Rightarrow> if t = [] then ''{}'' else t)"
    by simp
  have bad: "JSON_parse ''I cannot'' = None"
    by code_simp
  note a = generation_returns_the_parse
      [where parse = JSON_parse and ev = ?ev and call = "\<lambda>i. Inr \<lparr>response_text = Some ''{}''\<rparr>"
         and resp = "\<lparr>response_text = Some ''{}''\<rparr>" and cleanText = "''{}''",
       OF safeGenerateContent_first_answer c1, THEN conjunct1, rule_format,
       OF JSON_parse_empty_object]
  note b = generation_returns_the_parse
      [where parse = JSON_parse and ev = ?ev
         and call = "\<lambda>i. Inr \<lparr>response_text = Some ''I cannot''\<rparr>"
         and resp = "\<lparr>response_text = Some ''I cannot''\<rparr>" and cleanText = "''I cannot''",
       OF safeGenerateContent_first_answer c2, THEN conjunct2, rule_format, OF bad]
  from a [THEN conjunct1] a [THEN conjunct2] b [THEN conjunct1] show ?thesis
    by (intro conjI)
qed

text \<open>The prompt operation of the example: the sanitizer fails on the first answer, which
  is no JSON, and the operation throws; the later answers are fenced JSON.\<close>

lemma exampleGen_eval:
  "exampleGen i rq =
     (if i = 0 then Inl (Error ''Failed to parse prompts JSON'')
      else Inr (JObject [(''groupId'', JNumber 2)]))"
proof -
  have c0: "cleanJsonString ''I cannot help with that.'' = ''I cannot help with that.''"
    by code_simp
  have p0: "JSON_parse ''I cannot help with that.'' = None"
    by code_simp
  have c1: "cleanJsonString ''```json\<newline>{\"groupId\": 2}\<newline>```'' =
      ''\<newline>{\"groupId\": 2}\<newline>''"
    by code_simp
  have p1: "JSON_parse ''\<newline>{\"groupId\": 2}\<newline>'' = Some (JObject [(''groupId'', JNumber 2)])"
    by code_simp
  show ?thesis
  proof (cases "i = 0")
    case True
    then have "exampleGen i rq =
        generatePromptsForGroup JSON_parse \<lparr>genAI = True, API_KEY = None\<rparr>
          (\<lambda>attempt. Inr \<lparr>response_text = Some ''I cannot help with that.''\<rparr>)"
      by (simp add: exampleGen_def promptOperation_def exampleUpstream_def)
    also have "\<dots> = Inl (Error ''Failed to parse prompts JSON'')"
      by (simp add: generatePromptsForGroup_result [OF safeGenerateContent_first_answer] c0 p0)
    finally show ?thesis
      using True by simp
  next
    case False
    then have "exampleGen i rq =
        generatePromptsForGroup JSON_parse \<lparr>genAI = True, API_KEY = None\<rparr>
          (\<lambda>attempt. Inr \<lparr>response_text = Some ''```json\<newline>{\"groupId\": 2}\<newline>```''\<rparr>)"
      by (simp add: exampleGen_def promptOperation_def exampleUpstream_def)
    also have "\<dots> = Inr (JObject [(''groupId'', JNumber 2)])"
      by (simp add: generatePromptsForGroup_result [OF safeGenerateContent_first_answer] c1 p1)
    finally show ?thesis
      using False by simp
  qed
qed

section \<open>Properties of the fence stripping\<close>

lemma startsWith_hd:
  "w \<noteq> [] \<Longrightarrow> startsWith w s \<Longrightarrow> s \<noteq> [] \<and> hd w = hd s"
  by (cases w; cases s) (auto simp: startsWith_def)

lemma startsWith_append [simp]: "startsWith w (w @ rest)"
  by (simp add: startsWith_def)

text \<open>In a table where entries with the same first byte have the same length, an entry
  at the head of a text is matched with its own length.\<close>

lemma matchAt_entry:
  assumes ne: "[] \<notin> set tbl"
    and pf: "\<forall>w\<in>set tbl. \<forall>w'\<in>set tbl. hd w = hd w' \<longrightarrow> length w = length w'"
    and w: "w \<in> set tbl"
  shows "matchAt tbl (w @ rest) = length w"
proof -
  define m where "m = filter (\<lambda>w'. w' \<noteq> [] \<and> startsWith w' (w @ rest)) tbl"
  from ne w have wne: "w \<noteq> []"
    by blast
  with w have "w \<in> set m"
    by (simp add: m_def)
  then obtain w' ms where m: "m = w' # ms"
    by (cases m) simp_all
  then have "w' \<in> set m"
    by simp
  then have w': "w' \<in> set tbl" "w' \<noteq> []" "startsWith w' (w @ rest)"
    by (simp_all add: m_def)
  have "hd w' = hd (w @ rest)"
    using startsWith_hd [OF w'(2,3)] by (rule conjunct2)
  also have "\<dots> = hd w"
    using wne by (rule hd_append2)
  finally have "hd w' = hd w" .
  with pf w w'(1) have "length w' = length w"
    by blast
  then show ?thesis
    using m by (simp add: matchAt_def m_def [symmetric])
qed

lemma matchAt_none:
  assumes "\<forall>w\<in>set tbl. w \<noteq> [] \<longrightarrow> hd w \<noteq> c"
  shows "matchAt tbl (c # r) = 0"
proof -
  have "\<not> (w \<noteq> [] \<and> startsWith w (c # r))" if "w \<in> set tbl" for w
  proof
    assume h: "w \<noteq> [] \<and> startsWith w (c # r)"
    then have "hd w = c"
      using startsWith_hd [of w "c # r"] by simp
    with assms that h show False
      by blast
  qed
  then have "filter (\<lambda>w. w \<noteq> [] \<and> startsWith w (c # r)) tbl = []"
    by (simp only: filter_empty_conv) blast
  then show ?thesis
    by (simp add: matchAt_def)
qed

lemma dropLeading_stop: "s = [] \<or> matchAt tbl s = 0 \<Longrightarrow> dropLeading tbl s = s"
  by (subst dropLeading.simps) auto

lemma dropLeading_concat:
  assumes ne: "[] \<notin> set tbl"
    and pf: "\<forall>w\<in>set tbl. \<forall>w'\<in>set tbl. hd w = hd w' \<longrightarrow> length w = length w'"
  shows "set ws \<subseteq> set tbl \<Longrightarrow> dropLeading tbl (concat ws @ x) = dropLeading tbl x"
proof (induction ws)
  case Nil
  then show ?case by simp
next
  case (Cons w ws)
  then have w: "w \<in> set tbl" and ws: "set ws \<subseteq> set tbl"
    by simp_all
  from ne w have wne: "w \<noteq> []" by auto
  have m: "matchAt tbl (w @ concat ws @ x) = length w"
    by (rule matchAt_entry [OF ne pf w])
  have "dropLeading tbl (w @ concat ws @ x) = dropLeading tbl (concat ws @ x)"
    by (subst dropLeading.simps) (simp add: m wne)
  with Cons.IH [OF ws] show ?case
    by simp
qed

lemma WhiteSpace_table:
  "[] \<notin> set WhiteSpace"
  "\<forall>w\<in>set WhiteSpace. \<forall>w'\<in>set WhiteSpace. hd w = hd w' \<longrightarrow> length w = length w'"
  "\<forall>w\<in>set WhiteSpace. w \<noteq> [] \<longrightarrow> hd w \<noteq> CHR ''`''"
proof -
  show "[] \<notin> set WhiteSpace"
    by (simp add: WhiteSpace_def)
  show "\<forall>w\<in>set WhiteSpace. w \<noteq> [] \<longrightarrow> hd w \<noteq> CHR ''`''"
    by (simp add: WhiteSpace_def)
  have "list_all (\<lambda>w. list_all (\<lambda>w'. hd w = hd w' \<longrightarrow> length w = length w') WhiteSpace)
          WhiteSpace"
    by code_simp
  then show "\<forall>w\<in>set WhiteSpace. \<forall>w'\<in>set WhiteSpace.
      hd w = hd w' \<longrightarrow> length w = length w'"
    by (simp only: list_all_iff)
qed

lemma WhiteSpace_rev_table:
  "[] \<notin> set (map rev WhiteSpace)"
  "\<forall>w\<in>set (map rev WhiteSpace). \<forall>w'\<in>set (map rev WhiteSpace).
     hd w = hd w' \<longrightarrow> length w = length w'"
  "\<forall>w\<in>set (map rev WhiteSpace). w \<noteq> [] \<longrightarrow> hd w \<noteq> CHR ''`''"
proof -
  show "[] \<notin> set (map rev WhiteSpace)"
    by (simp add: WhiteSpace_def)
  show "\<forall>w\<in>set (map rev WhiteSpace). w \<noteq> [] \<longrightarrow> hd w \<noteq> CHR ''`''"
    by (simp add: WhiteSpace_def)
  have "list_all (\<lambda>w. list_all (\<lambda>w'. hd w = hd w' \<longrightarrow> length w = length w')
          (map rev WhiteSpace)) (map rev WhiteSpace)"
    by code_simp
  then show "\<forall>w\<in>set (map rev WhiteSpace). \<forall>w'\<in>set (map rev WhiteSpace).
      hd w = hd w' \<longrightarrow> length w = length w'"
    by (simp only: list_all_iff)
qed

text \<open>\<^verbatim>\<open>trim\<close> removes whitespace around a text that begins and ends with a backtick,
  and nothing else.\<close>

lemma trim_fenced:
  assumes "set ws1 \<subseteq> set WhiteSpace" and "set ws4 \<subseteq> set WhiteSpace"
  shows "trim (concat ws1 @ (CHR ''`'' # y @ [CHR ''`'']) @ concat ws4) = CHR ''`'' # y @ [CHR ''`'']"
proof -
  let ?x = "CHR ''`'' # y @ [CHR ''`'']"
  have "dropLeading WhiteSpace (concat ws1 @ ?x @ concat ws4) =
        dropLeading WhiteSpace (?x @ concat ws4)"
    by (rule dropLeading_concat [OF WhiteSpace_table(1,2) assms(1)])
  also have "\<dots> = ?x @ concat ws4"
    using matchAt_none [OF WhiteSpace_table(3)] by (simp add: dropLeading_stop)
  finally have left: "dropLeading WhiteSpace (concat ws1 @ ?x @ concat ws4) = ?x @ concat ws4" .
  have "rev (?x @ concat ws4) = concat (map rev (rev ws4)) @ rev ?x"
    by (simp add: rev_concat)
  moreover have "set (map rev (rev ws4)) \<subseteq> set (map rev WhiteSpace)"
    using assms(2) by auto
  ultimately have "dropLeading (map rev WhiteSpace) (rev (?x @ concat ws4)) =
      dropLeading (map rev WhiteSpace) (rev ?x)"
    by (simp only: dropLeading_concat [OF WhiteSpace_rev_table(1,2)])
  also have "\<dots> = rev ?x"
    using matchAt_none [OF WhiteSpace_rev_table(3)] by (simp add: dropLeading_stop)
  finally show ?thesis
    using left by (simp add: trim_def)
qed

lemma stripClosingFence_append: "stripClosingFence (y @ ''```'') = y"
  by (simp add: stripClosingFence_def endsWith_def)

lemma stripOpeningFence_bare:
  assumes "r = [] \<or> toLowerCase (hd r) \<noteq> CHR ''j''"
  shows "stripOpeningFence (''```'' @ r) = r"
proof -
  have "map toLowerCase (take 4 r) \<noteq> ''json''"
  proof (cases r)
    case Nil
    then show ?thesis by simp
  next
    case (Cons c cs)
    with assms have "toLowerCase c \<noteq> CHR ''j''"
      by simp
    with Cons show ?thesis
      by (simp add: take_Cons')
  qed
  then show ?thesis
    by (simp add: stripOpeningFence_def startsWith_def)
qed

lemma stripOpeningFence_tagged:
  assumes "map toLowerCase tag = ''json''"
  shows "stripOpeningFence (''```'' @ tag @ r) = r"
proof -
  from assms have "length (map toLowerCase tag) = 4"
    by simp
  then have len: "length tag = 4"
    by simp
  then have "take 4 (tag @ r) = tag" "drop 4 (tag @ r) = r"
    by simp_all
  with assms show ?thesis
    by (simp add: stripOpeningFence_def startsWith_def)
qed

lemma no_j:
  "c \<in> jsonWs \<union> jsonFirst \<Longrightarrow> toLowerCase c \<noteq> CHR ''j''"
  by (auto simp: jsonWs_def jsonFirst_def toLowerCase_def)

text \<open>A text that parses, after JSON whitespace, does not begin with the letter j.\<close>

lemma payload_first:
  assumes "readsJson parse" and "parse p = Some v" and "set w2 \<subseteq> jsonWs"
  shows "w2 @ p @ z \<noteq> [] \<and> toLowerCase (hd (w2 @ p @ z)) \<noteq> CHR ''j''"
proof -
  from assms(1,2) obtain c cs where sk: "skipWs p = c # cs" and c: "c \<in> jsonFirst"
    unfolding readsJson_def by blast
  then have pne: "p \<noteq> []"
    by (auto simp: skipWs_def)
  have "hd p \<in> jsonWs \<union> jsonFirst"
  proof (cases "hd p \<in> jsonWs")
    case True
    then show ?thesis by simp
  next
    case False
    with pne have "skipWs p = p"
      by (cases p) (simp_all add: skipWs_def)
    with sk c show ?thesis
      by simp
  qed
  moreover have "hd (w2 @ p @ z) \<in> jsonWs \<union> jsonFirst"
  proof (cases w2)
    case Nil
    with pne calculation show ?thesis by simp
  next
    case (Cons a as)
    with assms(3) show ?thesis by simp
  qed
  ultimately show ?thesis
    using pne by (simp add: no_j)
qed

text \<open>
  C7. Let \<open>parse\<close> read JSON (whitespace around a text is insignificant; a text begins
  with the first character of a value), and let \<open>p\<close> be a payload it parses. Wrap
  \<open>p\<close> in a fence: three backticks, with or without the tag \<^verbatim>\<open>json\<close> in any case,
  then JSON whitespace (a line break, say) or none, the payload, JSON whitespace or
  none, and three backticks; and put any whitespace that \<^verbatim>\<open>trim\<close> removes before
  and after. Then the sanitizer returns the payload with the inner whitespace, and
  parsing that gives what parsing \<open>p\<close> gives.
\<close>

theorem cleanJsonString_fenced:
  assumes "readsJson parse" and "parse p = Some v"
    and "set ws1 \<subseteq> set WhiteSpace" and "set ws4 \<subseteq> set WhiteSpace"
    and "set w2 \<subseteq> jsonWs" and "set w3 \<subseteq> jsonWs"
    and "tag = [] \<or> map toLowerCase tag = ''json''"
  shows "cleanJsonString (concat ws1 @ ''```'' @ tag @ w2 @ p @ w3 @ ''```'' @ concat ws4) =
           w2 @ p @ w3 \<and>
         parse (cleanJsonString
                  (concat ws1 @ ''```'' @ tag @ w2 @ p @ w3 @ ''```'' @ concat ws4)) = parse p"
proof -
  let ?inner = "w2 @ p @ w3"
  let ?txt = "concat ws1 @ ''```'' @ tag @ w2 @ p @ w3 @ ''```'' @ concat ws4"
  let ?y = "''``'' @ tag @ ?inner @ ''``''"
  have shape: "?txt = concat ws1 @ (CHR ''`'' # ?y @ [CHR ''`'']) @ concat ws4"
    by simp
  have ne: "?txt \<noteq> []"
    by simp
  have trimmed: "trim ?txt = ''```'' @ tag @ ?inner @ ''```''"
    by (simp only: shape trim_fenced [OF assms(3,4)]) simp
  have opened: "stripOpeningFence (''```'' @ tag @ ?inner @ ''```'') = ?inner @ ''```''"
  proof (cases "tag = []")
    case True
    from payload_first [OF assms(1,2,5), of "w3 @ ''```''"]
    have "stripOpeningFence (''```'' @ (w2 @ p @ w3 @ ''```'')) = w2 @ p @ w3 @ ''```''"
      by (intro stripOpeningFence_bare) simp
    with True show ?thesis
      by simp
  next
    case False
    with assms(7) have "map toLowerCase tag = ''json''"
      by simp
    then show ?thesis
      by (rule stripOpeningFence_tagged)
  qed
  have closed: "stripClosingFence (?inner @ ''```'') = ?inner"
    by (rule stripClosingFence_append)
  have clean: "cleanJsonString ?txt = ?inner"
    unfolding cleanJsonString_def Let_def trimmed
    using ne opened closed by (simp add: startsWith_def)
  from assms(1,5,6) have "parse (w2 @ p @ w3) = parse p"
    unfolding readsJson_def by blast
  with clean show ?thesis
    by simp
qed

text \<open>The executable reader has the two properties of \<^const>\<open>readsJson\<close>.\<close>

lemma skipWs_leading: "set w \<subseteq> jsonWs \<Longrightarrow> skipWs (w @ s) = skipWs s"
  unfolding skipWs_def by (rule dropWhile_append2) blast

lemma skipWs_trailing:
  assumes "set w \<subseteq> jsonWs"
  shows "skipWs (rev (skipWs (s @ w))) = skipWs (rev (skipWs s))"
proof (cases "\<forall>x\<in>set s. x \<in> jsonWs")
  case True
  with assms have "skipWs (s @ w) = []" "skipWs s = []"
    by (auto simp: skipWs_def)
  then show ?thesis
    by simp
next
  case False
  then obtain x where "x \<in> set s" "\<not> x \<in> jsonWs"
    by blast
  then have "skipWs (s @ w) = skipWs s @ w"
    unfolding skipWs_def by (rule dropWhile_append1)
  moreover from assms have "set (rev w) \<subseteq> jsonWs"
    by simp
  ultimately show ?thesis
    by (simp add: skipWs_leading)
qed

lemma skipWs_nonempty: "skipWs x = c # cs \<Longrightarrow> x \<noteq> []"
  by (auto simp: skipWs_def)

lemma digit_chars:
  "map char_of [48, 49, 50, 51, 52, 53, 54, 55, 56, 57 :: nat] = ''0123456789''"
  by code_simp

lemma isDigit_first: "isDigit c \<Longrightarrow> c \<in> jsonFirst"
proof -
  assume "isDigit c"
  then have "(of_char c :: nat) \<in> {48, 49, 50, 51, 52, 53, 54, 55, 56, 57}"
    unfolding isDigit_def by (simp only: insert_iff empty_iff) arith
  then have "char_of (of_char c :: nat) \<in> char_of ` {48, 49, 50, 51, 52, 53, 54, 55, 56, 57 :: nat}"
    by (rule imageI)
  also have "char_of ` {48, 49, 50, 51, 52, 53, 54, 55, 56, 57 :: nat} =
      set (map char_of [48, 49, 50, 51, 52, 53, 54, 55, 56, 57 :: nat])"
    by (simp only: set_map list.set)
  finally have "char_of (of_char c :: nat) \<in>
      set (map char_of [48, 49, 50, 51, 52, 53, 54, 55, 56, 57 :: nat])" .
  then have "c \<in> set ''0123456789''"
    by (simp only: digit_chars char_of_char)
  then show ?thesis
    by (auto simp: jsonFirst_def)
qed

lemma readValue_first:
  "readValue n s = Some r \<Longrightarrow> \<exists>c cs. skipWs s = c # cs \<and> c \<in> jsonFirst"
proof (cases n)
  case 0
  assume "readValue n s = Some r"
  with 0 show ?thesis by simp
next
  case (Suc k)
  assume r: "readValue n s = Some r"
  show ?thesis
  proof (cases "skipWs s")
    case Nil
    with r Suc show ?thesis by simp
  next
    case (Cons c cs)
    have "c \<in> jsonFirst"
    proof (rule ccontr)
      assume no: "c \<notin> jsonFirst"
      then have "c \<noteq> CHR ''{''" "c \<noteq> CHR ''[''" "c \<noteq> CHR 0x22" "c \<noteq> CHR ''-''"
        "c \<noteq> CHR ''t''" "c \<noteq> CHR ''f''" "c \<noteq> CHR ''n''" "\<not> isDigit c"
        using isDigit_first [of c] by (auto simp: jsonFirst_def)
      with r Suc Cons show False
        by (simp add: startsWith_def)
    qed
    with Cons show ?thesis by simp
  qed
qed

lemma JSON_parse_reads: "readsJson JSON_parse"
  unfolding readsJson_def
proof (intro conjI allI impI)
  fix w1 s w2
  assume "set w1 \<subseteq> jsonWs \<and> set w2 \<subseteq> jsonWs"
  then have "skipWs (rev (skipWs (w1 @ s @ w2))) = skipWs (rev (skipWs s))"
    by (simp add: skipWs_leading skipWs_trailing)
  then show "JSON_parse (w1 @ s @ w2) = JSON_parse s"
    by (simp add: JSON_parse_def)
next
  fix s v
  assume p: "JSON_parse s = Some v"
  define u where "u = skipWs s"
  define t where "t = rev (skipWs (rev u))"
  have parse: "JSON_parse s =
      (case readValue (2 * length t + 2) t of Some (v, []) \<Rightarrow> Some v | _ \<Rightarrow> None)"
    by (simp only: JSON_parse_def Let_def t_def u_def)
  have "readValue (2 * length t + 2) t \<noteq> None"
  proof
    assume "readValue (2 * length t + 2) t = None"
    with parse have "JSON_parse s = None"
      by (simp only: option.case)
    with p show False
      by simp
  qed
  then obtain r where "readValue (2 * length t + 2) t = Some r"
    by blast
  from readValue_first [OF this] obtain c cs where sk: "skipWs t = c # cs"
    and c: "c \<in> jsonFirst"
    by blast
  from sk have tne: "t \<noteq> []"
    by (rule skipWs_nonempty)
  obtain w where u: "u = t @ w"
  proof
    show "u = t @ rev (takeWhile (\<lambda>c. c \<in> jsonWs) (rev u))"
      using takeWhile_dropWhile_id [of "\<lambda>c. c \<in> jsonWs" "rev u"]
      unfolding t_def skipWs_def by (metis rev_append rev_rev_ident)
  qed
  from u tne have une: "u \<noteq> []"
    by simp
  then have "hd u \<notin> jsonWs"
    unfolding u_def skipWs_def by (rule hd_dropWhile)
  moreover from u tne have "hd t = hd u"
    by simp
  ultimately have "hd t \<notin> jsonWs"
    by simp
  with tne have "skipWs t = t"
    by (cases t) (simp_all add: skipWs_def)
  with sk have "t = c # cs"
    by simp
  with u have "u = c # (cs @ w)"
    by simp
  with c show "\<exists>c cs. skipWs s = c # cs \<and> c \<in> jsonFirst"
    unfolding u_def by blast
qed

theorem cleanJsonString_fenced_witness:
  "cleanJsonString ('' '' @ [CHR 0xEF, CHR 0xBB, CHR 0xBF] @
       ''```JSON\<newline>{\"groupId\": 1}\<newline>```'' @ [CHR 0x0A]) =
     ''\<newline>'' @ ''{\"groupId\": 1}'' @ ''\<newline>'' \<and>
   JSON_parse (cleanJsonString ('' '' @ [CHR 0xEF, CHR 0xBB, CHR 0xBF] @
       ''```JSON\<newline>{\"groupId\": 1}\<newline>```'' @ [CHR 0x0A])) =
     Some (JObject [(''groupId'', JNumber 1)]) \<and>
   JSON_parse ''{\"groupId\": 1}'' = Some (JObject [(''groupId'', JNumber 1)])"
proof -
  let ?p = "''{\"groupId\": 1}''"
  have p: "JSON_parse ?p = Some (JObject [(''groupId'', JNumber 1)])"
    by code_simp
  have ws: "set ['' '', [CHR 0xEF, CHR 0xBB, CHR 0xBF]] \<subseteq> set WhiteSpace"
    "set [ [CHR 0x0A] ] \<subseteq> set WhiteSpace"
    by (simp_all add: WhiteSpace_def)
  have inner: "set ''\<newline>'' \<subseteq> jsonWs"
    by (simp add: jsonWs_def)
  have "map toLowerCase ''JSON'' = ''json''"
    by code_simp
  then have tag: "''JSON'' = [] \<or> map toLowerCase ''JSON'' = ''json''"
    by (rule disjI2)
  have literal: "concat ['' '', [CHR 0xEF, CHR 0xBB, CHR 0xBF]] @ ''```'' @ ''JSON'' @
      ''\<newline>'' @ ?p @ ''\<newline>'' @ ''```'' @ concat [ [CHR 0x0A] ] =
      '' '' @ [CHR 0xEF, CHR 0xBB, CHR 0xBF] @
        ''```JSON\<newline>{\"groupId\": 1}\<newline>```'' @ [CHR 0x0A]"
    by simp
  note t = cleanJsonString_fenced [OF JSON_parse_reads p ws inner inner tag]
  have a: "cleanJsonString ('' '' @ [CHR 0xEF, CHR 0xBB, CHR 0xBF] @
       ''```JSON\<newline>{\"groupId\": 1}\<newline>```'' @ [CHR 0x0A]) =
     ''\<newline>'' @ ?p @ ''\<newline>''"
    by (rule t [THEN conjunct1, unfolded literal])
  have b: "JSON_parse (cleanJsonString ('' '' @ [CHR 0xEF, CHR 0xBB, CHR 0xBF] @
       ''```JSON\<newline>{\"groupId\": 1}\<newline>```'' @ [CHR 0x0A])) = JSON_parse ?p"
    by (rule t [THEN conjunct2, unfolded literal])
  from a trans [OF b p] p show ?thesis
    by (intro conjI)
qed

section \<open>Properties of the generation queue\<close>

lemma processGroup_simps [simp]:
  "item (processGroup gen sb n i g s) = g"
  "batchProgress (published (processGroup gen sb n i g s)) = Some \<lparr>current = i + 1, total = n\<rparr>"
  "currentGroupId (published (processGroup gen sb n i g s)) = Some (group_id g)"
  "appState (published (processGroup gen sb n i g s)) = appState s"
  "storyboard (published (processGroup gen sb n i g s)) = storyboard s"
  "selectedModel (published (processGroup gen sb n i g s)) = selectedModel s"
  "req_groupId (request (processGroup gen sb n i g s)) = group_id g"
  "req_shots (request (processGroup gen sb n i g s)) =
     slice (script sb) ((group_id g - 1) * 4) ((group_id g - 1) * 4 + 4)"
  by (simp_all add: processGroup_def Let_def split: sum.splits)

lemma processGroup_result:
  "result (processGroup gen sb n i g s) = gen i (request (processGroup gen sb n i g s))"
  by (simp add: processGroup_def Let_def)

lemma processGroup_prompts:
  "prompts (published (processGroup gen sb n i g s)) =
     (case result (processGroup gen sb n i g s) of
        Inr data \<Rightarrow> (prompts s)(group_id g \<mapsto> data)
      | Inl e \<Rightarrow> prompts s)"
  by (simp add: processGroup_def Let_def split: sum.splits)

lemma queueLoop_items: "map item (queueLoop gen sb n i gs s) = gs"
  by (induction gs arbitrary: i s) (simp_all add: Let_def)

lemma queueLoop_length: "length (queueLoop gen sb n i gs s) = length gs"
  by (induction gs arbitrary: i s) (simp_all add: Let_def)

lemma queueLoop_progress:
  "map (\<lambda>it. batchProgress (published it)) (queueLoop gen sb n i gs s) =
   map (\<lambda>k. Some \<lparr>current = k, total = n\<rparr>) [i + 1..<i + 1 + length gs]"
proof (induction gs arbitrary: i s)
  case Nil
  then show ?case by simp
next
  case (Cons g gs)
  have "[i + 1..<i + 1 + length (g # gs)] = (i + 1) # [i + 1 + 1..<i + 1 + 1 + length gs]"
    by (simp add: upt_rec)
  then show ?case
    using Cons.IH [where i = "i + 1"] by (simp add: Let_def)
qed

lemma queueLoop_results:
  "k < length gs \<Longrightarrow>
   result (queueLoop gen sb n i gs s ! k) = gen (i + k) (request (queueLoop gen sb n i gs s ! k))"
proof (induction gs arbitrary: i s k)
  case Nil
  then show ?case by simp
next
  case (Cons g gs)
  show ?case
  proof (cases k)
    case 0
    then show ?thesis by (simp add: Let_def processGroup_result)
  next
    case (Suc k')
    with Cons.prems have "k' < length gs" by simp
    from Cons.IH [OF this, where i = "i + 1"] Suc show ?thesis
      by (simp add: Let_def)
  qed
qed

lemma queueLoop_shots:
  "it \<in> set (queueLoop gen sb n i gs s) \<Longrightarrow>
   req_shots (request it) =
     slice (script sb) ((group_id (item it) - 1) * 4) ((group_id (item it) - 1) * 4 + 4)"
  by (induction gs arbitrary: i s) (auto simp: Let_def)

lemma queueLoop_last:
  "stateAfter s (queueLoop gen sb n i (g # gs) s) =
   stateAfter (published (processGroup gen sb n i g s))
     (queueLoop gen sb n (i + 1) gs (published (processGroup gen sb n i g s)))"
  by (simp add: stateAfter_def Let_def)

lemma queueLoop_frame:
  "appState (stateAfter s (queueLoop gen sb n i gs s)) = appState s \<and>
   storyboard (stateAfter s (queueLoop gen sb n i gs s)) = storyboard s"
proof (induction gs arbitrary: i s)
  case Nil
  then show ?case by (simp add: stateAfter_def)
next
  case (Cons g gs)
  show ?case unfolding queueLoop_last
    using Cons.IH [where i = "i + 1" and s = "published (processGroup gen sb n i g s)"] by simp
qed

text \<open>An id whose items all failed keeps the entry it had, or keeps having none.\<close>

lemma queueLoop_prompts_kept:
  "\<forall>it \<in> set (queueLoop gen sb n i gs s). group_id (item it) = gid \<longrightarrow> isl (result it) \<Longrightarrow>
   prompts (stateAfter s (queueLoop gen sb n i gs s)) gid = prompts s gid"
proof (induction gs arbitrary: i s)
  case Nil
  then show ?case by (simp add: stateAfter_def)
next
  case (Cons g gs)
  let ?it = "processGroup gen sb n i g s"
  from Cons.prems have rest:
    "\<forall>it \<in> set (queueLoop gen sb n (i + 1) gs (published ?it)).
       group_id (item it) = gid \<longrightarrow> isl (result it)"
    by (simp add: Let_def)
  from Cons.prems have "group_id g = gid \<longrightarrow> isl (result ?it)"
    by (simp add: Let_def)
  then have "prompts (published ?it) gid = prompts s gid"
    by (cases "result ?it") (auto simp: processGroup_prompts)
  with Cons.IH [OF rest] show ?case
    unfolding queueLoop_last by simp
qed

lemma queueLoop_prompts_other:
  "gid \<notin> group_id ` set gs \<Longrightarrow>
   prompts (stateAfter s (queueLoop gen sb n i gs s)) gid = prompts s gid"
proof (rule queueLoop_prompts_kept, intro ballI impI)
  fix it
  assume no: "gid \<notin> group_id ` set gs"
    and it: "it \<in> set (queueLoop gen sb n i gs s)" and eq: "group_id (item it) = gid"
  from it have "item it \<in> set (map item (queueLoop gen sb n i gs s))"
    by simp
  then have "item it \<in> set gs"
    by (simp only: queueLoop_items)
  with no eq show "isl (result it)"
    by blast
qed

lemma runGenerationQueue_unfold:
  "storyboard s = Some sb \<Longrightarrow>
   started (runGenerationQueue gen gs s) =
     Some (s\<lparr>appState := GENERATING_PROMPTS,
             batchProgress := Some \<lparr>current = 0, total = length gs\<rparr>\<rparr>) \<and>
   iterations (runGenerationQueue gen gs s) =
     queueLoop gen sb (length gs) 0 gs
       (s\<lparr>appState := GENERATING_PROMPTS,
          batchProgress := Some \<lparr>current = 0, total = length gs\<rparr>\<rparr>) \<and>
   finished (runGenerationQueue gen gs s) =
     (stateAfter (s\<lparr>appState := GENERATING_PROMPTS,
                    batchProgress := Some \<lparr>current = 0, total = length gs\<rparr>\<rparr>)
        (iterations (runGenerationQueue gen gs s)))
       \<lparr>batchProgress := None, appState := VIEW_PROMPTS\<rparr>"
  by (simp add: runGenerationQueue_def Let_def)

lemma slice_chunk:
  "0 \<le> a \<Longrightarrow> slice xs a (a + 4) = take 4 (drop (nat a) xs)"
proof -
  assume a: "0 \<le> a"
  show ?thesis
  proof (cases "a < int (length xs)")
    case True
    with a have "slice xs a (a + 4) =
        take (nat (min (a + 4) (int (length xs)) - a)) (drop (nat a) xs)"
      by (simp add: slice_def Let_def min_def)
    also have "\<dots> = take (min 4 (length (drop (nat a) xs))) (drop (nat a) xs)"
      using a True by (auto simp: min_def intro!: arg_cong2 [where f = take])
    also have "\<dots> = take 4 (drop (nat a) xs)"
      by (simp add: min_def)
    finally show ?thesis .
  next
    case False
    with a show ?thesis
      by (simp add: slice_def Let_def min_def)
  qed
qed

text \<open>
  C2. With a storyboard loaded, a run over a work list of \<open>N\<close> items sets the progress
  to current 0, total \<open>N\<close> before the first item; the \<open>k\<close>-th iteration publishes
  current \<open>k\<close>, total \<open>N\<close>, so current goes 1, 2, ..., \<open>N\<close>, one step per item and
  the total fixed, whatever the prompt operation \<open>gen\<close> returns or throws; and when the
  list is exhausted the progress is absent.
\<close>

theorem runGenerationQueue_progress:
  assumes "storyboard s = Some sb"
  shows "map_option batchProgress (started (runGenerationQueue gen gs s)) =
           Some (Some \<lparr>current = 0, total = length gs\<rparr>) \<and>
         map (\<lambda>it. batchProgress (published it)) (iterations (runGenerationQueue gen gs s)) =
           map (\<lambda>k. Some \<lparr>current = k, total = length gs\<rparr>) [1..<length gs + 1] \<and>
         batchProgress (finished (runGenerationQueue gen gs s)) = None"
proof -
  note u = runGenerationQueue_unfold [OF assms, of gen gs]
  have "map (\<lambda>it. batchProgress (published it)) (iterations (runGenerationQueue gen gs s)) =
           map (\<lambda>k. Some \<lparr>current = k, total = length gs\<rparr>) [0 + 1..<0 + 1 + length gs]"
    by (simp only: u queueLoop_progress)
  then show ?thesis
    using u by simp
qed

theorem runGenerationQueue_progress_witness:
  "storyboard exampleApp = Some exampleStoryboard \<and>
   map_option batchProgress (started (runGenerationQueue exampleGen (groups exampleStoryboard) exampleApp)) =
     Some (Some \<lparr>current = 0, total = 2\<rparr>) \<and>
   map (\<lambda>it. batchProgress (published it))
       (iterations (runGenerationQueue exampleGen (groups exampleStoryboard) exampleApp)) =
     [Some \<lparr>current = 1, total = 2\<rparr>, Some \<lparr>current = 2, total = 2\<rparr>] \<and>
   batchProgress (finished (runGenerationQueue exampleGen (groups exampleStoryboard) exampleApp)) = None"
proof -
  have sb: "storyboard exampleApp = Some exampleStoryboard"
    by (simp add: exampleApp_def)
  have n: "length (groups exampleStoryboard) = 2"
    by (simp add: exampleStoryboard_def)
  have "[1..<length (groups exampleStoryboard) + 1] = [1, 2]"
    by (simp add: n upt_rec)
  with runGenerationQueue_progress [OF sb, of exampleGen "groups exampleStoryboard"] sb n
  show ?thesis by simp
qed

text \<open>
  C3. With a storyboard loaded, the loop body runs once for each item of the work list,
  in order and to the end, whatever the prompt operation does: the \<open>k\<close>-th iteration
  is on the \<open>k\<close>-th item and calls the operation once. The run returns a state, not an
  error, and that state is in the phase \<^const>\<open>VIEW_PROMPTS\<close>. A group id whose
  items all failed has in the prompt mapping what it had before the run: no entry, if
  it had none.
\<close>

theorem runGenerationQueue_isolates_failures:
  assumes "storyboard s = Some sb"
  shows "map item (iterations (runGenerationQueue gen gs s)) = gs \<and>
         length (iterations (runGenerationQueue gen gs s)) = length gs \<and>
         (\<forall>k<length gs.
            result (iterations (runGenerationQueue gen gs s) ! k) =
              gen k (request (iterations (runGenerationQueue gen gs s) ! k))) \<and>
         appState (finished (runGenerationQueue gen gs s)) = VIEW_PROMPTS \<and>
         (\<forall>gid.
            (\<forall>it \<in> set (iterations (runGenerationQueue gen gs s)).
               group_id (item it) = gid \<longrightarrow> isl (result it)) \<longrightarrow>
            prompts (finished (runGenerationQueue gen gs s)) gid = prompts s gid)"
proof -
  note u = runGenerationQueue_unfold [OF assms, of gen gs]
  let ?s0 = "s\<lparr>appState := GENERATING_PROMPTS,
               batchProgress := Some \<lparr>current = 0, total = length gs\<rparr>\<rparr>"
  have its: "iterations (runGenerationQueue gen gs s) = queueLoop gen sb (length gs) 0 gs ?s0"
    using u by simp
  have a: "map item (iterations (runGenerationQueue gen gs s)) = gs"
    by (simp only: its queueLoop_items)
  have b: "length (iterations (runGenerationQueue gen gs s)) = length gs"
    by (simp only: its queueLoop_length)
  have c: "\<forall>k<length gs.
            result (iterations (runGenerationQueue gen gs s) ! k) =
              gen k (request (iterations (runGenerationQueue gen gs s) ! k))"
    using queueLoop_results [of _ gs gen sb "length gs" 0 ?s0] by (simp add: its)
  have d: "appState (finished (runGenerationQueue gen gs s)) = VIEW_PROMPTS"
    using u by simp
  have e: "prompts (finished (runGenerationQueue gen gs s)) gid = prompts s gid"
    if "\<forall>it \<in> set (iterations (runGenerationQueue gen gs s)).
               group_id (item it) = gid \<longrightarrow> isl (result it)" for gid
  proof -
    have "prompts (finished (runGenerationQueue gen gs s)) gid =
          prompts (stateAfter ?s0 (queueLoop gen sb (length gs) 0 gs ?s0)) gid"
      using u by simp
    also have "\<dots> = prompts ?s0 gid"
      using that unfolding its by (rule queueLoop_prompts_kept)
    finally show ?thesis by simp
  qed
  from a b c d e show ?thesis by blast
qed

lemma example_run:
  "iterations (runGenerationQueue exampleGen (groups exampleStoryboard) exampleApp) =
     queueLoop exampleGen exampleStoryboard 2 0 (groups exampleStoryboard)
       (exampleApp\<lparr>appState := GENERATING_PROMPTS,
                    batchProgress := Some \<lparr>current = 0, total = 2\<rparr>\<rparr>)"
proof -
  have sb: "storyboard exampleApp = Some exampleStoryboard"
    by (simp add: exampleApp_def)
  have n: "length (groups exampleStoryboard) = 2"
    by (simp add: exampleStoryboard_def)
  from runGenerationQueue_unfold [OF sb, of exampleGen "groups exampleStoryboard"]
  show ?thesis
    by (simp only: n)
qed

theorem runGenerationQueue_isolates_failures_witness:
  "storyboard exampleApp = Some exampleStoryboard \<and>
   map (\<lambda>it. group_id (item it))
       (iterations (runGenerationQueue exampleGen (groups exampleStoryboard) exampleApp)) = [1, 2] \<and>
   map result
       (iterations (runGenerationQueue exampleGen (groups exampleStoryboard) exampleApp)) =
     [Inl (Error ''Failed to parse prompts JSON''), Inr (JObject [(''groupId'', JNumber 2)])] \<and>
   appState (finished (runGenerationQueue exampleGen (groups exampleStoryboard) exampleApp)) =
     VIEW_PROMPTS \<and>
   prompts (finished (runGenerationQueue exampleGen (groups exampleStoryboard) exampleApp)) 1 = None"
proof -
  let ?r = "runGenerationQueue exampleGen (groups exampleStoryboard) exampleApp"
  have sb: "storyboard exampleApp = Some exampleStoryboard"
    by (simp add: exampleApp_def)
  have ids: "map (\<lambda>it. group_id (item it)) (iterations ?r) = [1, 2]"
    by (simp add: example_run) (simp add: exampleStoryboard_def Let_def)
  have res: "map result (iterations ?r) =
      [Inl (Error ''Failed to parse prompts JSON''), Inr (JObject [(''groupId'', JNumber 2)])]"
    by (simp add: example_run)
       (simp add: exampleStoryboard_def Let_def processGroup_result exampleGen_eval)
  have failed: "\<forall>it \<in> set (iterations ?r). group_id (item it) = 1 \<longrightarrow> isl (result it)"
    by (simp add: example_run)
       (simp add: exampleStoryboard_def Let_def processGroup_result exampleGen_eval)
  have "prompts exampleApp 1 = None"
    by (simp add: exampleApp_def)
  with runGenerationQueue_isolates_failures [OF sb, of exampleGen "groups exampleStoryboard"]
    failed
  have "appState (finished ?r) = VIEW_PROMPTS" "prompts (finished ?r) 1 = None"
    by simp_all
  with sb ids res show ?thesis
    by (intro conjI)
qed

lemma processGroup_request:
  "request (processGroup gen sb n i g s) =
     \<lparr>req_groupId = group_id g, req_groupNarrative = narrative g,
      req_shots = slice (script sb) ((group_id g - 1) * 4) ((group_id g - 1) * 4 + 4),
      req_settings = settings sb, req_modelName = selectedModel s\<rparr>"
  by (simp add: processGroup_def Let_def)

lemma queueLoop_requests:
  "k < length gs \<Longrightarrow>
   request (queueLoop gen sb n i gs s ! k) =
     \<lparr>req_groupId = group_id (gs ! k), req_groupNarrative = narrative (gs ! k),
      req_shots = slice (script sb) ((group_id (gs ! k) - 1) * 4)
                    ((group_id (gs ! k) - 1) * 4 + 4),
      req_settings = settings sb, req_modelName = selectedModel s\<rparr>"
proof (induction gs arbitrary: i s k)
  case Nil
  then show ?case by simp
next
  case (Cons g gs)
  show ?case
  proof (cases k)
    case 0
    then show ?thesis
      by (simp add: Let_def processGroup_request)
  next
    case (Suc k')
    with Cons.prems have "k' < length gs" by simp
    from Cons.IH [OF this, where i = "i + 1" and s = "published (processGroup gen sb n i g s)"]
      Suc show ?thesis
      by (simp add: Let_def)
  qed
qed

text \<open>
  C6. With a storyboard loaded, a run makes one iteration for each item of the work
  list, in order. The iteration of an item whose id is 1 or more (ids are 1-based) calls
  the prompt operation, and what the iteration records as its result is what that call
  returned. The call is handed the id and the narrative of the item, the settings of
  the bundle, the selected model, and exactly the shots of the script at the zero-based
  indices from \<open>(id - 1) * 4\<close> up to, not including, \<open>(id - 1) * 4 + 4\<close>, in order:
  the 4 shots of that chunk, or as many of them as the script has.
\<close>

theorem runGenerationQueue_shots:
  assumes "storyboard s = Some sb"
    and "k < length gs"
    and "1 \<le> group_id (gs ! k)"
  shows "length (iterations (runGenerationQueue gen gs s)) = length gs \<and>
         item (iterations (runGenerationQueue gen gs s) ! k) = gs ! k \<and>
         result (iterations (runGenerationQueue gen gs s) ! k) =
           gen k (request (iterations (runGenerationQueue gen gs s) ! k)) \<and>
         request (iterations (runGenerationQueue gen gs s) ! k) =
           \<lparr>req_groupId = group_id (gs ! k), req_groupNarrative = narrative (gs ! k),
            req_shots = take 4 (drop (nat ((group_id (gs ! k) - 1) * 4)) (script sb)),
            req_settings = settings sb, req_modelName = selectedModel s\<rparr> \<and>
         result (iterations (runGenerationQueue gen gs s) ! k) =
           gen k \<lparr>req_groupId = group_id (gs ! k), req_groupNarrative = narrative (gs ! k),
                  req_shots = take 4 (drop (nat ((group_id (gs ! k) - 1) * 4)) (script sb)),
                  req_settings = settings sb, req_modelName = selectedModel s\<rparr> \<and>
         length (req_shots (request (iterations (runGenerationQueue gen gs s) ! k))) =
           min 4 (length (script sb) - nat ((group_id (gs ! k) - 1) * 4)) \<and>
         (\<forall>j<length (req_shots (request (iterations (runGenerationQueue gen gs s) ! k))).
            req_shots (request (iterations (runGenerationQueue gen gs s) ! k)) ! j =
              script sb ! (nat ((group_id (gs ! k) - 1) * 4) + j))"
proof -
  note u = runGenerationQueue_unfold [OF assms(1), of gen gs]
  let ?s0 = "s\<lparr>appState := GENERATING_PROMPTS,
               batchProgress := Some \<lparr>current = 0, total = length gs\<rparr>\<rparr>"
  let ?its = "queueLoop gen sb (length gs) 0 gs ?s0"
  let ?shots = "take 4 (drop (nat ((group_id (gs ! k) - 1) * 4)) (script sb))"
  let ?rq = "\<lparr>req_groupId = group_id (gs ! k), req_groupNarrative = narrative (gs ! k),
            req_shots = ?shots, req_settings = settings sb,
            req_modelName = selectedModel s\<rparr>"
  have its: "iterations (runGenerationQueue gen gs s) = ?its"
    using u by simp
  have len: "length ?its = length gs"
    by (rule queueLoop_length)
  have "item (?its ! k) = map item ?its ! k"
    using assms(2) len by simp
  then have it: "item (?its ! k) = gs ! k"
    by (simp only: queueLoop_items)
  from assms(3) have "0 \<le> (group_id (gs ! k) - 1) * 4"
    by simp
  then have "slice (script sb) ((group_id (gs ! k) - 1) * 4) ((group_id (gs ! k) - 1) * 4 + 4) =
      ?shots"
    by (rule slice_chunk)
  with queueLoop_requests [OF assms(2), of gen sb "length gs" 0 ?s0]
  have rq: "request (?its ! k) = ?rq"
    by simp
  have "result (?its ! k) = gen (0 + k) (request (?its ! k))"
    by (rule queueLoop_results [OF assms(2)])
  then have res: "result (?its ! k) = gen k (request (?its ! k))"
    by simp
  with rq have res': "result (?its ! k) = gen k ?rq"
    by simp
  have "req_shots (request (?its ! k)) = ?shots"
    by (simp add: rq)
  then have sh: "length (req_shots (request (?its ! k))) =
      min 4 (length (script sb) - nat ((group_id (gs ! k) - 1) * 4))"
    "\<forall>j<length (req_shots (request (?its ! k))).
       req_shots (request (?its ! k)) ! j = script sb ! (nat ((group_id (gs ! k) - 1) * 4) + j)"
    by (simp_all add: min_def)
  from len it res rq res' sh show ?thesis
    unfolding its by (intro conjI)
qed

theorem runGenerationQueue_shots_witness:
  "storyboard exampleApp = Some exampleStoryboard \<and>
   (1 :: nat) < length (groups exampleStoryboard) \<and>
   1 \<le> group_id (groups exampleStoryboard ! 1) \<and>
   map shot_id
     (req_shots (request (iterations (runGenerationQueue echoGen (groups exampleStoryboard)
                                        exampleApp) ! 1))) = [5, 6, 7, 8] \<and>
   result (iterations (runGenerationQueue echoGen (groups exampleStoryboard) exampleApp) ! 1) =
     Inr (JObject [(''groupId'', JNumber 2), (''cameraPrompts'', JString ''escape''),
                   (''shots'', JArray [JNumber 5, JNumber 6, JNumber 7, JNumber 8])])"
proof -
  let ?r = "runGenerationQueue echoGen (groups exampleStoryboard) exampleApp"
  have sb: "storyboard exampleApp = Some exampleStoryboard"
    by (simp add: exampleApp_def)
  have k: "(1 :: nat) < length (groups exampleStoryboard)"
    by (simp add: exampleStoryboard_def)
  have pos: "1 \<le> group_id (groups exampleStoryboard ! 1)"
    by (simp add: exampleStoryboard_def)
  note t = runGenerationQueue_shots [OF sb k pos, of echoGen]
  note rq = t [THEN conjunct2, THEN conjunct2, THEN conjunct2, THEN conjunct1]
  note res = t [THEN conjunct2, THEN conjunct2, THEN conjunct2, THEN conjunct2, THEN conjunct1]
  have shots: "map shot_id (req_shots (request (iterations ?r ! 1))) = [5, 6, 7, 8]"
    unfolding rq by (simp add: exampleStoryboard_def exampleShot_def)
  have answer: "result (iterations ?r ! 1) =
     Inr (JObject [(''groupId'', JNumber 2), (''cameraPrompts'', JString ''escape''),
                   (''shots'', JArray [JNumber 5, JNumber 6, JNumber 7, JNumber 8])])"
    unfolding res by (simp add: echoGen_def exampleStoryboard_def exampleShot_def)
  from sb k pos shots answer show ?thesis
    by (intro conjI)
qed
section \<open>Properties of the handlers\<close>

lemma find_group_id:
  "find (\<lambda>g. group_id g = groupId) gs = Some g \<Longrightarrow> group_id g = groupId \<and> g \<in> set gs"
  by (induction gs) (auto split: if_splits)

lemma run_single:
  assumes "storyboard s = Some sb"
  shows "iterations (runGenerationQueue gen [g] s) =
           [processGroup gen sb 1 0 g
              (s\<lparr>appState := GENERATING_PROMPTS,
                  batchProgress := Some \<lparr>current = 0, total = 1\<rparr>\<rparr>)]"
  using runGenerationQueue_unfold [OF assms, of gen "[g]"] by (simp add: Let_def)

text \<open>
  C8. With a storyboard loaded and a group of the requested id in it, regenerating one
  group runs the queue over the work list that holds that group and nothing else. The
  run makes one call of the prompt operation, for that group: it is handed the id and
  the narrative of the group, the chunk of the script at \<open>(id - 1) * 4\<close>, the settings
  of the bundle and the selected model. The run leaves the entry of every other id in
  the prompt mapping as it was. If the call returns, what it returned is the entry of
  the group's id, in place of any earlier one; if the call fails, the entry of the
  group's id is as it was.
\<close>

theorem handleRegenerateGroup_frame:
  assumes "storyboard s = Some sb"
    and "find (\<lambda>g. group_id g = groupId) (groups sb) = Some g"
  shows "handleRegenerateGroup gen groupId s =
           (finished (runGenerationQueue gen [g] s), Some (runGenerationQueue gen [g] s)) \<and>
         map item (iterations (runGenerationQueue gen [g] s)) = [g] \<and>
         group_id g = groupId \<and>
         (\<forall>other. other \<noteq> groupId \<longrightarrow>
            prompts (fst (handleRegenerateGroup gen groupId s)) other = prompts s other) \<and>
         (\<forall>d. map result (iterations (runGenerationQueue gen [g] s)) = [Inr d] \<longrightarrow>
            prompts (fst (handleRegenerateGroup gen groupId s)) groupId = Some d) \<and>
         map request (iterations (runGenerationQueue gen [g] s)) =
           [\<lparr>req_groupId = groupId, req_groupNarrative = narrative g,
             req_shots = slice (script sb) ((groupId - 1) * 4) ((groupId - 1) * 4 + 4),
             req_settings = settings sb, req_modelName = selectedModel s\<rparr>] \<and>
         map result (iterations (runGenerationQueue gen [g] s)) =
           [gen 0 \<lparr>req_groupId = groupId, req_groupNarrative = narrative g,
                   req_shots = slice (script sb) ((groupId - 1) * 4) ((groupId - 1) * 4 + 4),
                   req_settings = settings sb, req_modelName = selectedModel s\<rparr>] \<and>
         (\<forall>d. gen 0 \<lparr>req_groupId = groupId, req_groupNarrative = narrative g,
                      req_shots = slice (script sb) ((groupId - 1) * 4) ((groupId - 1) * 4 + 4),
                      req_settings = settings sb, req_modelName = selectedModel s\<rparr> = Inr d \<longrightarrow>
            prompts (fst (handleRegenerateGroup gen groupId s)) groupId = Some d) \<and>
         (\<forall>e. gen 0 \<lparr>req_groupId = groupId, req_groupNarrative = narrative g,
                      req_shots = slice (script sb) ((groupId - 1) * 4) ((groupId - 1) * 4 + 4),
                      req_settings = settings sb, req_modelName = selectedModel s\<rparr> = Inl e \<longrightarrow>
            prompts (fst (handleRegenerateGroup gen groupId s)) groupId = prompts s groupId)"
proof -
  let ?s0 = "s\<lparr>appState := GENERATING_PROMPTS,
               batchProgress := Some \<lparr>current = 0, total = 1\<rparr>\<rparr>"
  let ?it = "processGroup gen sb 1 0 g ?s0"
  let ?rq = "\<lparr>req_groupId = groupId, req_groupNarrative = narrative g,
             req_shots = slice (script sb) ((groupId - 1) * 4) ((groupId - 1) * 4 + 4),
             req_settings = settings sb, req_modelName = selectedModel s\<rparr>"
  note u = runGenerationQueue_unfold [OF assms(1), of gen "[g]"]
  have h: "handleRegenerateGroup gen groupId s =
           (finished (runGenerationQueue gen [g] s), Some (runGenerationQueue gen [g] s))"
    by (simp add: handleRegenerateGroup_def assms Let_def)
  have its: "iterations (runGenerationQueue gen [g] s) = [?it]"
    by (rule run_single [OF assms(1)])
  have items: "map item (iterations (runGenerationQueue gen [g] s)) = [g]"
    by (simp add: its)
  have gid: "group_id g = groupId"
    using find_group_id [OF assms(2)] by simp
  have fin: "prompts (finished (runGenerationQueue gen [g] s)) = prompts (published ?it)"
    using u by (simp add: its stateAfter_def)
  have rq: "request ?it = ?rq"
    by (simp add: processGroup_request gid)
  have res: "result ?it = gen 0 ?rq"
    using processGroup_result [of gen sb 1 0 g ?s0] by (simp only: rq)
  have other: "\<forall>other. other \<noteq> groupId \<longrightarrow>
      prompts (fst (handleRegenerateGroup gen groupId s)) other = prompts s other"
    by (cases "result ?it") (simp_all add: h fin processGroup_prompts gid)
  have stored: "\<forall>d. map result (iterations (runGenerationQueue gen [g] s)) = [Inr d] \<longrightarrow>
      prompts (fst (handleRegenerateGroup gen groupId s)) groupId = Some d"
    by (simp add: h fin its processGroup_prompts gid)
  have requests: "map request (iterations (runGenerationQueue gen [g] s)) = [?rq]"
    by (simp only: its list.map rq)
  have results: "map result (iterations (runGenerationQueue gen [g] s)) = [gen 0 ?rq]"
    by (simp only: its list.map res)
  have "prompts (fst (handleRegenerateGroup gen groupId s)) =
      (case result ?it of Inr data \<Rightarrow> (prompts s)(groupId \<mapsto> data) | Inl e \<Rightarrow> prompts s)"
    by (cases "result ?it") (simp_all add: h fin processGroup_prompts gid)
  then have pr: "prompts (fst (handleRegenerateGroup gen groupId s)) =
      (case gen 0 ?rq of Inr data \<Rightarrow> (prompts s)(groupId \<mapsto> data) | Inl e \<Rightarrow> prompts s)"
    by (simp only: res)
  have returned: "\<forall>d. gen 0 ?rq = Inr d \<longrightarrow>
      prompts (fst (handleRegenerateGroup gen groupId s)) groupId = Some d"
    unfolding pr by simp
  have failed: "\<forall>e. gen 0 ?rq = Inl e \<longrightarrow>
      prompts (fst (handleRegenerateGroup gen groupId s)) groupId = prompts s groupId"
    unfolding pr by simp
  from h items gid other stored requests results returned failed show ?thesis
    by (intro conjI)
qed

theorem handleRegenerateGroup_frame_witness:
  "storyboard (exampleApp\<lparr>prompts := [1 \<mapsto> JNull, 2 \<mapsto> JBool True]\<rparr>) = Some exampleStoryboard \<and>
   find (\<lambda>g. group_id g = 2) (groups exampleStoryboard) =
     Some \<lparr>group_id = 2, group_range = ''5-8'', narrative = ''escape''\<rparr> \<and>
   prompts (fst (handleRegenerateGroup echoGen 2
                   (exampleApp\<lparr>prompts := [1 \<mapsto> JNull, 2 \<mapsto> JBool True]\<rparr>))) 1 = Some JNull \<and>
   prompts (fst (handleRegenerateGroup echoGen 2
                   (exampleApp\<lparr>prompts := [1 \<mapsto> JNull, 2 \<mapsto> JBool True]\<rparr>))) 2 =
     Some (JObject [(''groupId'', JNumber 2), (''cameraPrompts'', JString ''escape''),
                    (''shots'', JArray [JNumber 5, JNumber 6, JNumber 7, JNumber 8])])"
proof -
  let ?s = "exampleApp\<lparr>prompts := [1 \<mapsto> JNull, 2 \<mapsto> JBool True]\<rparr>"
  let ?g = "\<lparr>group_id = 2, group_range = ''5-8'', narrative = ''escape''\<rparr>"
  let ?rq = "\<lparr>req_groupId = 2, req_groupNarrative = narrative ?g,
             req_shots = slice (script exampleStoryboard) ((2 - 1) * 4) ((2 - 1) * 4 + 4),
             req_settings = settings exampleStoryboard, req_modelName = selectedModel ?s\<rparr>"
  have sb: "storyboard ?s = Some exampleStoryboard"
    by (simp add: exampleApp_def)
  have f: "find (\<lambda>g. group_id g = 2) (groups exampleStoryboard) = Some ?g"
    by (simp add: exampleStoryboard_def)
  have "slice (script exampleStoryboard) ((2 - 1) * 4) ((2 - 1) * 4 + 4) =
        take 4 (drop (nat ((2 - 1) * 4)) (script exampleStoryboard))"
    by (rule slice_chunk) simp
  then have answer: "echoGen 0 ?rq =
     Inr (JObject [(''groupId'', JNumber 2), (''cameraPrompts'', JString ''escape''),
                   (''shots'', JArray [JNumber 5, JNumber 6, JNumber 7, JNumber 8])])"
    by (simp add: echoGen_def exampleStoryboard_def exampleShot_def)
  have old: "prompts ?s 1 = Some JNull"
    by simp
  note t = handleRegenerateGroup_frame [OF sb f, of echoGen]
  note others = t [THEN conjunct2, THEN conjunct2, THEN conjunct2, THEN conjunct1, rule_format]
  note returned = t [THEN conjunct2, THEN conjunct2, THEN conjunct2, THEN conjunct2,
      THEN conjunct2, THEN conjunct2, THEN conjunct2, THEN conjunct1, rule_format]
  have "prompts (fst (handleRegenerateGroup echoGen 2 ?s)) 1 = prompts ?s 1"
    by (rule others) simp
  with old have one: "prompts (fst (handleRegenerateGroup echoGen 2 ?s)) 1 = Some JNull"
    by (simp only:)
  have two: "prompts (fst (handleRegenerateGroup echoGen 2 ?s)) 2 =
     Some (JObject [(''groupId'', JNumber 2), (''cameraPrompts'', JString ''escape''),
                    (''shots'', JArray [JNumber 5, JNumber 6, JNumber 7, JNumber 8])])"
    by (rule returned) (rule answer)
  from sb f one two show ?thesis
    by (simp only: simp_thms)
qed

text \<open>
  C5, as the claim states it, fails on a bundle with no groups: no group is missing a
  prompt, and yet confirming does not reach \<^const>\<open>VIEW_PROMPTS\<close>. The guard at the
  head of the handler returns before anything is set.
\<close>

theorem handleConfirmStoryboard_counterexample:
  "storyboard emptyApp = Some (exampleStoryboard\<lparr>script := [], groups := []\<rparr>) \<and>
   filter (\<lambda>g. \<not> hasPrompt (prompts emptyApp) (group_id g))
     (groups (exampleStoryboard\<lparr>script := [], groups := []\<rparr>)) = [] \<and>
   appState emptyApp = REVIEW_STORYBOARD \<and>
   appState (fst (handleConfirmStoryboard exampleGen emptyApp)) = REVIEW_STORYBOARD \<and>
   appState (fst (handleConfirmStoryboard exampleGen emptyApp)) \<noteq> VIEW_PROMPTS"
  by (simp add: handleConfirmStoryboard_def emptyApp_def exampleApp_def)

text \<open>
  C5, amended. Confirming a bundle that has at least one group computes the groups that
  have no prompt entry (none, or a falsy one), in the order of the bundle. If there are
  any, the phase is set to \<^const>\<open>VIEW_PROMPTS\<close> and a queue run starts over exactly
  those groups. If there are none, no run starts: the phase is
  \<^const>\<open>VIEW_PROMPTS\<close>, the progress and the prompt mapping are what they were, and a
  selected group (an id other than 0) stays selected. With no bundle, or a bundle with
  no groups, confirming changes nothing.
\<close>

theorem handleConfirmStoryboard_missing:
  "(storyboard s = Some sb \<and> groups sb \<noteq> [] \<and>
      filter (\<lambda>g. \<not> hasPrompt (prompts s) (group_id g)) (groups sb) \<noteq> [] \<longrightarrow>
      handleConfirmStoryboard gen s =
        (finished (runGenerationQueue gen
                     (filter (\<lambda>g. \<not> hasPrompt (prompts s) (group_id g)) (groups sb))
                     (s\<lparr>appState := VIEW_PROMPTS\<rparr>)),
         Some (runGenerationQueue gen
                 (filter (\<lambda>g. \<not> hasPrompt (prompts s) (group_id g)) (groups sb))
                 (s\<lparr>appState := VIEW_PROMPTS\<rparr>)))) \<and>
   (storyboard s = Some sb \<and> groups sb \<noteq> [] \<and>
      filter (\<lambda>g. \<not> hasPrompt (prompts s) (group_id g)) (groups sb) = [] \<longrightarrow>
      snd (handleConfirmStoryboard gen s) = None \<and>
      appState (fst (handleConfirmStoryboard gen s)) = VIEW_PROMPTS \<and>
      batchProgress (fst (handleConfirmStoryboard gen s)) = batchProgress s \<and>
      prompts (fst (handleConfirmStoryboard gen s)) = prompts s \<and>
      storyboard (fst (handleConfirmStoryboard gen s)) = storyboard s \<and>
      (\<forall>c. currentGroupId s = Some c \<and> c \<noteq> 0 \<longrightarrow>
         currentGroupId (fst (handleConfirmStoryboard gen s)) = Some c)) \<and>
   (storyboard s = None \<or> (storyboard s = Some sb \<and> groups sb = []) \<longrightarrow>
      handleConfirmStoryboard gen s = (s, None))"
proof -
  have queue: "handleConfirmStoryboard gen s =
        (finished (runGenerationQueue gen
                     (filter (\<lambda>g. \<not> hasPrompt (prompts s) (group_id g)) (groups sb))
                     (s\<lparr>appState := VIEW_PROMPTS\<rparr>)),
         Some (runGenerationQueue gen
                 (filter (\<lambda>g. \<not> hasPrompt (prompts s) (group_id g)) (groups sb))
                 (s\<lparr>appState := VIEW_PROMPTS\<rparr>)))"
    if h: "storyboard s = Some sb \<and> groups sb \<noteq> [] \<and>
      filter (\<lambda>g. \<not> hasPrompt (prompts s) (group_id g)) (groups sb) \<noteq> []"
  proof -
    from h obtain g0 gs where "groups sb = g0 # gs"
      by (cases "groups sb") auto
    with h show ?thesis
      by (simp add: handleConfirmStoryboard_def Let_def)
  qed
  have straight: "snd (handleConfirmStoryboard gen s) = None \<and>
      appState (fst (handleConfirmStoryboard gen s)) = VIEW_PROMPTS \<and>
      batchProgress (fst (handleConfirmStoryboard gen s)) = batchProgress s \<and>
      prompts (fst (handleConfirmStoryboard gen s)) = prompts s \<and>
      storyboard (fst (handleConfirmStoryboard gen s)) = storyboard s \<and>
      (\<forall>c. currentGroupId s = Some c \<and> c \<noteq> 0 \<longrightarrow>
         currentGroupId (fst (handleConfirmStoryboard gen s)) = Some c)"
    if h: "storyboard s = Some sb \<and> groups sb \<noteq> [] \<and>
      filter (\<lambda>g. \<not> hasPrompt (prompts s) (group_id g)) (groups sb) = []"
  proof -
    from h obtain g0 gs where "groups sb = g0 # gs"
      by (cases "groups sb") auto
    with h show ?thesis
      by (auto simp: handleConfirmStoryboard_def Let_def)
  qed
  have q: "storyboard s = Some sb \<and> groups sb \<noteq> [] \<and>
      filter (\<lambda>g. \<not> hasPrompt (prompts s) (group_id g)) (groups sb) \<noteq> [] \<longrightarrow>
      handleConfirmStoryboard gen s =
        (finished (runGenerationQueue gen
                     (filter (\<lambda>g. \<not> hasPrompt (prompts s) (group_id g)) (groups sb))
                     (s\<lparr>appState := VIEW_PROMPTS\<rparr>)),
         Some (runGenerationQueue gen
                 (filter (\<lambda>g. \<not> hasPrompt (prompts s) (group_id g)) (groups sb))
                 (s\<lparr>appState := VIEW_PROMPTS\<rparr>)))"
    using queue by (rule impI)
  have st: "storyboard s = Some sb \<and> groups sb \<noteq> [] \<and>
      filter (\<lambda>g. \<not> hasPrompt (prompts s) (group_id g)) (groups sb) = [] \<longrightarrow>
      snd (handleConfirmStoryboard gen s) = None \<and>
      appState (fst (handleConfirmStoryboard gen s)) = VIEW_PROMPTS \<and>
      batchProgress (fst (handleConfirmStoryboard gen s)) = batchProgress s \<and>
      prompts (fst (handleConfirmStoryboard gen s)) = prompts s \<and>
      storyboard (fst (handleConfirmStoryboard gen s)) = storyboard s \<and>
      (\<forall>c. currentGroupId s = Some c \<and> c \<noteq> 0 \<longrightarrow>
         currentGroupId (fst (handleConfirmStoryboard gen s)) = Some c)"
    using straight by (rule impI)
  have no: "storyboard s = None \<or> (storyboard s = Some sb \<and> groups sb = []) \<longrightarrow>
      handleConfirmStoryboard gen s = (s, None)"
    by (auto simp: handleConfirmStoryboard_def)
  show ?thesis
    by (rule conjI [OF q conjI [OF st no]])
qed

theorem handleConfirmStoryboard_missing_witness:
  "handleConfirmStoryboard exampleGen exampleApp =
     (finished (runGenerationQueue exampleGen (groups exampleStoryboard)
                  (exampleApp\<lparr>appState := VIEW_PROMPTS\<rparr>)),
      Some (runGenerationQueue exampleGen (groups exampleStoryboard)
              (exampleApp\<lparr>appState := VIEW_PROMPTS\<rparr>))) \<and>
   snd (handleConfirmStoryboard exampleGen
          (exampleApp\<lparr>prompts := [1 \<mapsto> JObject [], 2 \<mapsto> JObject []],
                       currentGroupId := Some 2\<rparr>)) = None \<and>
   appState (fst (handleConfirmStoryboard exampleGen
          (exampleApp\<lparr>prompts := [1 \<mapsto> JObject [], 2 \<mapsto> JObject []],
                       currentGroupId := Some 2\<rparr>))) = VIEW_PROMPTS \<and>
   batchProgress (fst (handleConfirmStoryboard exampleGen
          (exampleApp\<lparr>prompts := [1 \<mapsto> JObject [], 2 \<mapsto> JObject []],
                       currentGroupId := Some 2\<rparr>))) = None \<and>
   currentGroupId (fst (handleConfirmStoryboard exampleGen
          (exampleApp\<lparr>prompts := [1 \<mapsto> JObject [], 2 \<mapsto> JObject []],
                       currentGroupId := Some 2\<rparr>))) = Some 2 \<and>
   handleConfirmStoryboard exampleGen emptyApp = (emptyApp, None)"
proof -
  let ?done = "exampleApp\<lparr>prompts := [1 \<mapsto> JObject [], 2 \<mapsto> JObject []],
                          currentGroupId := Some 2\<rparr>"
  let ?none = "exampleStoryboard\<lparr>script := [], groups := []\<rparr>"
  have sb: "storyboard exampleApp = Some exampleStoryboard"
    "storyboard ?done = Some exampleStoryboard" "storyboard emptyApp = Some ?none"
    by (simp_all add: exampleApp_def emptyApp_def)
  have gs: "groups exampleStoryboard \<noteq> []" "groups ?none = []"
    by (simp_all add: exampleStoryboard_def)
  have all_missing:
    "filter (\<lambda>g. \<not> hasPrompt (prompts exampleApp) (group_id g)) (groups exampleStoryboard) =
       groups exampleStoryboard"
    by (simp add: exampleApp_def exampleStoryboard_def hasPrompt_def)
  have none_missing:
    "filter (\<lambda>g. \<not> hasPrompt (prompts ?done) (group_id g)) (groups exampleStoryboard) = []"
    by (simp add: exampleStoryboard_def hasPrompt_def)
  have before: "batchProgress ?done = None" "currentGroupId ?done = Some 2"
    by (simp_all add: exampleApp_def)
  note a = handleConfirmStoryboard_missing [of exampleApp exampleStoryboard exampleGen,
      THEN conjunct1, rule_format]
  note b = handleConfirmStoryboard_missing [of ?done exampleStoryboard exampleGen,
      THEN conjunct2, THEN conjunct1, rule_format]
  note c = handleConfirmStoryboard_missing [of emptyApp ?none exampleGen,
      THEN conjunct2, THEN conjunct2, rule_format]
  have ra: "handleConfirmStoryboard exampleGen exampleApp =
     (finished (runGenerationQueue exampleGen (groups exampleStoryboard)
                  (exampleApp\<lparr>appState := VIEW_PROMPTS\<rparr>)),
      Some (runGenerationQueue exampleGen (groups exampleStoryboard)
              (exampleApp\<lparr>appState := VIEW_PROMPTS\<rparr>)))"
    using a sb(1) gs(1) all_missing by simp
  have rb: "snd (handleConfirmStoryboard exampleGen ?done) = None \<and>
      appState (fst (handleConfirmStoryboard exampleGen ?done)) = VIEW_PROMPTS \<and>
      batchProgress (fst (handleConfirmStoryboard exampleGen ?done)) = batchProgress ?done \<and>
      prompts (fst (handleConfirmStoryboard exampleGen ?done)) = prompts ?done \<and>
      storyboard (fst (handleConfirmStoryboard exampleGen ?done)) = storyboard ?done \<and>
      (\<forall>c. currentGroupId ?done = Some c \<and> c \<noteq> 0 \<longrightarrow>
         currentGroupId (fst (handleConfirmStoryboard exampleGen ?done)) = Some c)"
    by (rule b) (simp only: sb gs none_missing simp_thms)
  then have sel: "currentGroupId (fst (handleConfirmStoryboard exampleGen ?done)) = Some 2"
    using before(2) by simp
  have rc: "handleConfirmStoryboard exampleGen emptyApp = (emptyApp, None)"
    by (rule c) (simp only: sb gs simp_thms)
  from ra rb sel rc before(1) show ?thesis
    by (simp only: simp_thms)
qed

text \<open>Every run that a handler starts is started with a storyboard loaded: the guard of
  the queue never fires.\<close>

lemma handlers_start_with_storyboard:
  "snd (handleConfirmStoryboard gen s) = Some r \<Longrightarrow> started r \<noteq> None"
  "snd (handleRegenerateAll gen confirmed s) = Some r \<Longrightarrow> started r \<noteq> None"
  "snd (handleRegenerateGroup gen groupId s) = Some r \<Longrightarrow> started r \<noteq> None"
proof -
  have q: "started (runGenerationQueue gen gs s') \<noteq> None" if "storyboard s' \<noteq> None" for gs s'
    using that by (auto simp: runGenerationQueue_def Let_def)
  show "snd (handleConfirmStoryboard gen s) = Some r \<Longrightarrow> started r \<noteq> None"
    using q by (auto simp: handleConfirmStoryboard_def Let_def split: option.splits list.splits if_splits)
  show "snd (handleRegenerateAll gen confirmed s) = Some r \<Longrightarrow> started r \<noteq> None"
    using q by (auto simp: handleRegenerateAll_def Let_def split: option.splits if_splits)
  show "snd (handleRegenerateGroup gen groupId s) = Some r \<Longrightarrow> started r \<noteq> None"
    using q by (auto simp: handleRegenerateGroup_def Let_def split: option.splits)
qed

section \<open>Properties of the manual edit\<close>

lemma map_of_update_other:
  "k \<noteq> k' \<Longrightarrow> map_of (AList.update k' v al) k = map_of al k"
  by (simp add: update_conv')

text \<open>
  C9. Take a state where the selected group (an id other than 0) has a prompt result:
  an object \<open>fs\<close> whose \<^verbatim>\<open>imagePrompts\<close> is an object \<open>ips\<close>. After the manual
  edit of one key to the text \<open>v\<close>, the entry of that group is an object with the same
  property names in the same order; its \<^verbatim>\<open>imagePrompts\<close> holds \<open>v\<close> at the edited
  key and, at every other key, what \<open>ips\<close> held; every other property of the entry
  (\<^verbatim>\<open>cameraPrompts\<close>, \<^verbatim>\<open>groupId\<close>, any other) is what it was; and the entry of
  every other group is what it was.
\<close>

theorem saveEdit_frame:
  assumes "currentGroupId s = Some g" and "g \<noteq> 0"
    and "prompts s g = Some (JObject fs)"
    and "map_of fs ''imagePrompts'' = Some (JObject ips)"
  shows "\<exists>fs' ips'.
           prompts (saveEdit key v s) g = Some (JObject fs') \<and>
           map fst fs' = map fst fs \<and>
           map_of fs' ''imagePrompts'' = Some (JObject ips') \<and>
           map_of ips' key = Some (JString v) \<and>
           (\<forall>k. k \<noteq> key \<longrightarrow> map_of ips' k = map_of ips k) \<and>
           (key \<in> fst ` set ips \<longrightarrow> map fst ips' = map fst ips) \<and>
           map_of fs' ''cameraPrompts'' = map_of fs ''cameraPrompts'' \<and>
           map_of fs' ''groupId'' = map_of fs ''groupId'' \<and>
           (\<forall>f. f \<noteq> ''imagePrompts'' \<longrightarrow> map_of fs' f = map_of fs f) \<and>
           (\<forall>other. other \<noteq> g \<longrightarrow> prompts (saveEdit key v s) other = prompts s other)"
proof -
  let ?ips' = "AList.update key (JString v) ips"
  let ?fs' = "AList.update ''imagePrompts'' (JObject ?ips') fs"
  have cp: "currentPrompt s = Some (JObject fs)"
    using assms by (simp add: currentPrompt_def)
  have run: "saveEdit key v s = handleUpdatePromptData g (JObject ?ips') s"
    using assms cp by (simp add: saveEdit_def Let_def)
  have entry: "prompts (saveEdit key v s) g = Some (JObject ?fs')"
    using assms by (simp add: run handleUpdatePromptData_def)
  have others: "\<forall>other. other \<noteq> g \<longrightarrow> prompts (saveEdit key v s) other = prompts s other"
    by (simp add: run handleUpdatePromptData_def)
  from assms(4) have "''imagePrompts'' \<in> fst ` set fs"
    by (rule map_of_SomeD [THEN imageI [where f = fst], simplified])
  then have names: "map fst ?fs' = map fst fs"
    by (simp add: update_keys)
  have inner_names: "key \<in> fst ` set ips \<longrightarrow> map fst ?ips' = map fst ips"
    by (simp add: update_keys)
  have "map_of ?fs' ''imagePrompts'' = Some (JObject ?ips')"
    "map_of ?ips' key = Some (JString v)"
    "\<forall>k. k \<noteq> key \<longrightarrow> map_of ?ips' k = map_of ips k"
    "map_of ?fs' ''cameraPrompts'' = map_of fs ''cameraPrompts''"
    "map_of ?fs' ''groupId'' = map_of fs ''groupId''"
    "\<forall>f. f \<noteq> ''imagePrompts'' \<longrightarrow> map_of ?fs' f = map_of fs f"
    by (simp_all add: update_conv')
  with entry names inner_names others show ?thesis
    by (intro exI [of _ ?fs'] exI [of _ ?ips'] conjI)
qed

theorem saveEdit_frame_witness:
  "currentGroupId reviewApp = Some 2 \<and>
   prompts reviewApp 2 = Some (examplePrompt 2) \<and>
   (\<exists>fs' ips'.
      prompts (saveEdit ''lighting'' ''dawn'' reviewApp) 2 = Some (JObject fs') \<and>
      map fst fs' = [''groupId'', ''imagePrompts'', ''cameraPrompts''] \<and>
      map_of fs' ''imagePrompts'' = Some (JObject ips') \<and>
      map_of ips' ''lighting'' = Some (JString ''dawn'') \<and>
      map_of ips' ''subject'' = Some (JString ''detective'') \<and>
      map_of fs' ''cameraPrompts'' = Some (JString ''Shot 1: push in'') \<and>
      map_of fs' ''groupId'' = Some (JNumber 2)) \<and>
   prompts (saveEdit ''lighting'' ''dawn'' reviewApp) 1 = Some (examplePrompt 1)"
proof -
  let ?ips = "[(''shot'', JString ''grid''), (''subject'', JString ''detective''),
            (''environment'', JString ''street''), (''lighting'', JString ''neon''),
            (''camera'', JString ''low''), (''colorGrade'', JString ''teal''),
            (''style'', JString ''noir''), (''quality'', JString ''8k'')]"
  let ?fs = "[(''groupId'', JNumber 2), (''imagePrompts'', JObject ?ips),
        (''cameraPrompts'', JString ''Shot 1: push in'')]"
  have sel: "currentGroupId reviewApp = Some 2" and nz: "(2::int) \<noteq> 0"
    by (simp_all add: reviewApp_def)
  have p2: "prompts reviewApp 2 = Some (JObject ?fs)"
    by (simp add: reviewApp_def examplePrompt_def)
  have p1: "prompts reviewApp 1 = Some (examplePrompt 1)"
    by (simp add: reviewApp_def)
  have ip: "map_of ?fs ''imagePrompts'' = Some (JObject ?ips)"
    by simp
  from saveEdit_frame [OF sel nz p2 ip, of "''lighting''" "''dawn''"]
  obtain fs' ips' where t:
    "prompts (saveEdit ''lighting'' ''dawn'' reviewApp) 2 = Some (JObject fs') \<and>
     map fst fs' = map fst ?fs \<and>
     map_of fs' ''imagePrompts'' = Some (JObject ips') \<and>
     map_of ips' ''lighting'' = Some (JString ''dawn'') \<and>
     (\<forall>k. k \<noteq> ''lighting'' \<longrightarrow> map_of ips' k = map_of ?ips k) \<and>
     (''lighting'' \<in> fst ` set ?ips \<longrightarrow> map fst ips' = map fst ?ips) \<and>
     map_of fs' ''cameraPrompts'' = map_of ?fs ''cameraPrompts'' \<and>
     map_of fs' ''groupId'' = map_of ?fs ''groupId'' \<and>
     (\<forall>f. f \<noteq> ''imagePrompts'' \<longrightarrow> map_of fs' f = map_of ?fs f) \<and>
     (\<forall>other. other \<noteq> 2 \<longrightarrow>
        prompts (saveEdit ''lighting'' ''dawn'' reviewApp) other = prompts reviewApp other)"
    by (elim exE)
  note a = t [THEN conjunct1]
  note b = t [THEN conjunct2, THEN conjunct1]
  note c = t [THEN conjunct2, THEN conjunct2, THEN conjunct1]
  note d = t [THEN conjunct2, THEN conjunct2, THEN conjunct2, THEN conjunct1]
  note e = t [THEN conjunct2, THEN conjunct2, THEN conjunct2, THEN conjunct2, THEN conjunct1]
  note f = t [THEN conjunct2, THEN conjunct2, THEN conjunct2, THEN conjunct2, THEN conjunct2,
      THEN conjunct2, THEN conjunct1]
  note g = t [THEN conjunct2, THEN conjunct2, THEN conjunct2, THEN conjunct2, THEN conjunct2,
      THEN conjunct2, THEN conjunct2, THEN conjunct1]
  note h = t [THEN conjunct2, THEN conjunct2, THEN conjunct2, THEN conjunct2, THEN conjunct2,
      THEN conjunct2, THEN conjunct2, THEN conjunct2, THEN conjunct2]
  from e have e': "map_of ips' ''subject'' = Some (JString ''detective'')"
    by simp
  from h p1 have h': "prompts (saveEdit ''lighting'' ''dawn'' reviewApp) 1 = Some (examplePrompt 1)"
    by simp
  from b have b': "map fst fs' = [''groupId'', ''imagePrompts'', ''cameraPrompts'']"
    by simp
  from f g have fg: "map_of fs' ''cameraPrompts'' = Some (JString ''Shot 1: push in'')"
    "map_of fs' ''groupId'' = Some (JNumber 2)"
    by simp_all
  have p2': "prompts reviewApp 2 = Some (examplePrompt 2)"
    by (simp add: reviewApp_def)
  from a b' c d e' fg have
    "\<exists>fs' ips'.
      prompts (saveEdit ''lighting'' ''dawn'' reviewApp) 2 = Some (JObject fs') \<and>
      map fst fs' = [''groupId'', ''imagePrompts'', ''cameraPrompts''] \<and>
      map_of fs' ''imagePrompts'' = Some (JObject ips') \<and>
      map_of ips' ''lighting'' = Some (JString ''dawn'') \<and>
      map_of ips' ''subject'' = Some (JString ''detective'') \<and>
      map_of fs' ''cameraPrompts'' = Some (JString ''Shot 1: push in'') \<and>
      map_of fs' ''groupId'' = Some (JNumber 2)"
    by (intro exI [of _ fs'] exI [of _ ips'] conjI)
  with sel p2' h' show ?thesis
    by (intro conjI)
qed

end
